theory Spec2Isabelle
  imports Complex_Main "HOL-Library.Word" "HOL-Library.Log_Nat" "HOL-Library.Code_Target_Numeral"
begin

section \<open>C strings and the formatting done by the C library\<close>

text \<open>
  A C string ends at its first NUL byte; \<open>snprintf\<close> with a buffer of \<open>n\<close> bytes
  stores at most \<open>n - 1\<close> characters of the formatted text and then the NUL.
\<close>

definition c_str :: "string \<Rightarrow> string" where
  "c_str s = takeWhile (\<lambda>c. c \<noteq> CHR 0x00) s"

definition snprintf :: "nat \<Rightarrow> string \<Rightarrow> string" where
  "snprintf n formatted = take (n - 1) formatted"

definition digit :: "nat \<Rightarrow> char" where
  "digit d = ''0123456789'' ! (d mod 10)"

function dec_nat :: "nat \<Rightarrow> string" where
  "dec_nat n = (if n < 10 then [digit n] else dec_nat (n div 10) @ [digit n])"
  by pat_completeness auto
termination
  by (relation "measure id") auto

declare dec_nat.simps [simp del]

text \<open>The conversion \<open>%lld\<close>.\<close>

definition fmt_lld :: "int \<Rightarrow> string" where
  "fmt_lld i = (if i < 0 then CHR ''-'' # dec_nat (nat (- i)) else dec_nat (nat i))"

section \<open>Single-precision values\<close>

text \<open>
  A C \<open>float\<close> is a sign and a magnitude, an infinity, or a NaN. The magnitude of a
  finite value is kept as the rational number it denotes.
\<close>

datatype float32 = Finite bool rat | Infinity bool | NaN

definition round_half_even :: "rat \<Rightarrow> int" where
  "round_half_even x =
     (let f = \<lfloor>x\<rfloor>; r = x - of_int f
      in if r < 1 / 2 then f else if 1 / 2 < r then f + 1 else if even f then f else f + 1)"

text \<open>
  The number of hundredths that \<open>%.2f\<close> prints for a magnitude: the float is promoted
  to double without change, and the exact binary value is rounded to two decimals.
\<close>

definition hundredths :: "rat \<Rightarrow> nat" where
  "hundredths m = nat (round_half_even (m * 100))"

definition fmt_2f :: "float32 \<Rightarrow> string" where
  "fmt_2f v =
     (case v of
        Finite s m \<Rightarrow>
          (if s then ''-'' else '''') @ dec_nat (hundredths m div 100) @ ''.'' @
          [digit (hundredths m div 10), digit (hundredths m)]
      | Infinity s \<Rightarrow> (if s then ''-inf'' else ''inf'')
      | NaN \<Rightarrow> ''nan'')"

text \<open>
  Rounding a magnitude to the nearest single-precision value, ties to even. In units of
  the smallest subnormal, \<open>2^-149\<close>, a single-precision magnitude is an integer of at
  most 24 significant bits; \<open>shift_of\<close> is the number of low bits that do not fit. A
  result of \<open>2^128\<close> or more overflows to infinity.
\<close>

definition denorm_min :: rat where
  "denorm_min = 1 / 2 ^ 149"

definition shift_of :: "rat \<Rightarrow> nat" where
  "shift_of m = floorlog 2 (nat \<lfloor>m / denorm_min\<rfloor>) - 24"

definition significand :: "rat \<Rightarrow> int" where
  "significand m = round_half_even (m / denorm_min / 2 ^ shift_of m)"

definition round32_val :: "rat \<Rightarrow> rat" where
  "round32_val m = of_int (significand m * 2 ^ shift_of m) * denorm_min"

definition round32 :: "bool \<Rightarrow> rat \<Rightarrow> float32" where
  "round32 s m = (if 2 ^ 128 \<le> round32_val m then Infinity s else Finite s (round32_val m))"

text \<open>A decimal constant of the source (\<open>2.6f\<close>) and the conversion \<open>(float)i\<close>.\<close>

definition float_lit :: "rat \<Rightarrow> float32" where
  "float_lit q = round32 (q < 0) \<bar>q\<bar>"

definition float_of_int :: "int \<Rightarrow> float32" where
  "float_of_int i = round32 (i < 0) (of_int \<bar>i\<bar>)"

text \<open>The arithmetic of IEEE 754 on single-precision values, rounding to nearest.\<close>

fun fmul :: "float32 \<Rightarrow> float32 \<Rightarrow> float32" where
  "fmul (Finite s m) (Finite t n) = round32 (s \<noteq> t) (m * n)"
| "fmul (Finite s m) (Infinity t) = (if m = 0 then NaN else Infinity (s \<noteq> t))"
| "fmul (Infinity s) (Finite t n) = (if n = 0 then NaN else Infinity (s \<noteq> t))"
| "fmul (Infinity s) (Infinity t) = Infinity (s \<noteq> t)"
| "fmul _ _ = NaN"

fun fdiv :: "float32 \<Rightarrow> float32 \<Rightarrow> float32" where
  "fdiv (Finite s m) (Finite t n) =
     (if n = 0 then (if m = 0 then NaN else Infinity (s \<noteq> t)) else round32 (s \<noteq> t) (m / n))"
| "fdiv (Finite s m) (Infinity t) = Finite (s \<noteq> t) 0"
| "fdiv (Infinity s) (Finite t n) = Infinity (s \<noteq> t)"
| "fdiv _ _ = NaN"

definition signed :: "bool \<Rightarrow> rat \<Rightarrow> rat" where
  "signed s m = (if s then - m else m)"

fun fadd :: "float32 \<Rightarrow> float32 \<Rightarrow> float32" where
  "fadd (Finite s m) (Finite t n) =
     (let r = signed s m + signed t n
      in if r = 0 then Finite (s \<and> t) 0 else round32 (r < 0) \<bar>r\<bar>)"
| "fadd (Finite s m) (Infinity t) = Infinity t"
| "fadd (Infinity s) (Finite t n) = Infinity s"
| "fadd (Infinity s) (Infinity t) = (if s = t then Infinity s else NaN)"
| "fadd _ _ = NaN"

section \<open>The MQTT client as the application sees it\<close>

type_synonym handle = nat

record publish_request =
  pub_client :: handle
  pub_topic :: string
  pub_data :: string
  pub_len :: int
  pub_qos :: int
  pub_retain :: int

datatype log_entry =
    W_client_not_initialised
  | I_published int string string
  | I_connected
  | I_disconnected
  | I_msg_published int
  | I_msg_received string string
  | E_mqtt_error int
  | D_unhandled int
  | I_corriente string
  | W_parse_failed string
  | W_no_uart_data
  | I_corriente_sala string
  | I_corriente_garage string

text \<open>
  Modelled from the spec: the Session states of its data model. The connection state
  lives inside the MQTT library, which is not part of the sources; the application
  keeps no copy of it.
\<close>

datatype session = Disconnected | Connecting | Connected | Error

record app_state =
  g_client :: "handle option"
  session :: session
  published :: "publish_request list"
  logged :: "log_entry list"

text \<open>What a call of \<open>publish_corriente\<close> reads from outside: the clock and the
  message id the library returns.\<close>

record pub_env =
  now :: "64 word"
  msg_id :: int

definition topic :: "string \<Rightarrow> string" where
  "topic fase = snprintf 64 (''casa/'' @ c_str fase @ ''/corriente'')"

definition payload :: "64 word \<Rightarrow> float32 \<Rightarrow> string" where
  "payload ts I_rms =
     snprintf 128
       (''{'' @ [CHR 0x22] @ ''ts'' @ [CHR 0x22] @ '':'' @ fmt_lld (sint ts) @ '','' @
        [CHR 0x22] @ ''I'' @ [CHR 0x22] @ '':'' @ fmt_2f I_rms @ ''}'')"

definition publish_corriente :: "string \<Rightarrow> float32 \<Rightarrow> pub_env \<Rightarrow> app_state \<Rightarrow> app_state" where
  "publish_corriente fase I_rms e s =
     (case g_client s of
        None \<Rightarrow> s\<lparr>logged := logged s @ [W_client_not_initialised]\<rparr>
      | Some c \<Rightarrow>
          s\<lparr>published := published s @
               [\<lparr>pub_client = c, pub_topic = topic fase, pub_data = payload (now e) I_rms,
                 pub_len = 0, pub_qos = 1, pub_retain = 0\<rparr>],
            logged := logged s @ [I_published (msg_id e) (topic fase) (payload (now e) I_rms)]\<rparr>)"

datatype mqtt_event =
    MQTT_EVENT_CONNECTED
  | MQTT_EVENT_DISCONNECTED
  | MQTT_EVENT_PUBLISHED int
  | MQTT_EVENT_DATA string string
  | MQTT_EVENT_ERROR int
  | MQTT_EVENT_OTHER int

definition mqtt_event_handler :: "mqtt_event \<Rightarrow> app_state \<Rightarrow> app_state" where
  "mqtt_event_handler ev s =
     s\<lparr>logged := logged s @
        [case ev of
           MQTT_EVENT_CONNECTED \<Rightarrow> I_connected
         | MQTT_EVENT_DISCONNECTED \<Rightarrow> I_disconnected
         | MQTT_EVENT_PUBLISHED i \<Rightarrow> I_msg_published i
         | MQTT_EVENT_DATA t d \<Rightarrow> I_msg_received t d
         | MQTT_EVENT_ERROR k \<Rightarrow> E_mqtt_error k
         | MQTT_EVENT_OTHER i \<Rightarrow> D_unhandled i]\<rparr>"

text \<open>
  Modelled from the spec: how the library's session moves on the events it reports
  (Connected, Disconnected, TransportError); the library itself is not in the sources.
\<close>

definition session_after :: "mqtt_event \<Rightarrow> session \<Rightarrow> session" where
  "session_after ev x =
     (case ev of
        MQTT_EVENT_CONNECTED \<Rightarrow> Connected
      | MQTT_EVENT_DISCONNECTED \<Rightarrow> Disconnected
      | MQTT_EVENT_ERROR k \<Rightarrow> Error
      | _ \<Rightarrow> x)"

definition deliver_event :: "mqtt_event \<Rightarrow> app_state \<Rightarrow> app_state" where
  "deliver_event ev s = mqtt_event_handler ev (s\<lparr>session := session_after ev (session s)\<rparr>)"

text \<open>
  \<open>mqtt_app_start\<close> stores whatever \<open>esp_mqtt_client_init\<close> returns (NULL when it
  fails) and starts the client, which connects in the background.
\<close>

definition mqtt_app_start :: "handle option \<Rightarrow> app_state \<Rightarrow> app_state" where
  "mqtt_app_start init_result s =
     s\<lparr>g_client := init_result,
       session := (case init_result of None \<Rightarrow> session s | Some c \<Rightarrow> Connecting)\<rparr>"

definition initial_state :: app_state where
  "initial_state = \<lparr>g_client = None, session = Disconnected, published = [], logged = []\<rparr>"


section \<open>Reading the serial line\<close>

text \<open>
  \<open>sscanf\<close> as ISO C describes it, for the directives the program's format uses: white
  space in the format skips any white space of the input (also none), any other
  character must match the next input character, and \<open>%f\<close> skips white space and then
  converts the longest text that has the form of a floating-point number as \<open>strtof\<close>
  expects it: an optional sign, then \<open>inf\<close>, \<open>infinity\<close> or \<open>nan\<close> in either case,
  or decimal digits with an optional point and an optional exponent. The result is the
  number of conversions done, or \<open>EOF\<close> (\<open>-1\<close>) when the input ends before the first.
\<close>

definition isspace :: "char \<Rightarrow> bool" where
  "isspace c = (c \<in> set [CHR 0x20, CHR 0x09, CHR 0x0A, CHR 0x0B, CHR 0x0C, CHR 0x0D])"

definition isdigit :: "char \<Rightarrow> bool" where
  "isdigit c = (c \<in> set ''0123456789'')"

fun position :: "char \<Rightarrow> string \<Rightarrow> nat" where
  "position c [] = 0"
| "position c (x # xs) = (if x = c then 0 else Suc (position c xs))"

definition digits_value :: "string \<Rightarrow> nat" where
  "digits_value ds = foldl (\<lambda>a c. 10 * a + position c ''0123456789'') 0 ds"

fun imatch :: "string list \<Rightarrow> string \<Rightarrow> bool" where
  "imatch [] s = True"
| "imatch (p # ps) [] = False"
| "imatch (p # ps) (c # cs) = (c \<in> set p \<and> imatch ps cs)"

definition scan_sign :: "string \<Rightarrow> bool \<times> string" where
  "scan_sign inp =
     (case inp of
        [] \<Rightarrow> (False, [])
      | c # cs \<Rightarrow> if c = CHR ''-'' then (True, cs) else if c = CHR ''+'' then (False, cs)
                 else (False, inp))"

definition scan_exponent :: "string \<Rightarrow> int \<times> string" where
  "scan_exponent inp =
     (case inp of
        [] \<Rightarrow> (0, inp)
      | c # cs \<Rightarrow>
          if c \<in> set ''eE'' then
            (case scan_sign cs of
               (neg, r) \<Rightarrow>
                 if takeWhile isdigit r = [] then (0, inp)
                 else (if neg then - int (digits_value (takeWhile isdigit r))
                       else int (digits_value (takeWhile isdigit r)),
                       dropWhile isdigit r))
          else (0, inp))"

definition scale10 :: "nat \<Rightarrow> int \<Rightarrow> rat" where
  "scale10 mant ex = (if 0 \<le> ex then of_nat mant * 10 ^ nat ex else of_nat mant / 10 ^ nat (- ex))"

definition scan_decimal :: "bool \<Rightarrow> string \<Rightarrow> (float32 \<times> string) option" where
  "scan_decimal neg inp =
     (let ip = takeWhile isdigit inp;
          r1 = dropWhile isdigit inp;
          has_point = (case r1 of [] \<Rightarrow> False | c # cs \<Rightarrow> c = CHR ''.'');
          fp = (if has_point then takeWhile isdigit (tl r1) else []);
          r2 = (if has_point then dropWhile isdigit (tl r1) else r1)
      in if ip = [] \<and> fp = [] then None
         else (case scan_exponent r2 of
                 (ex, r3) \<Rightarrow>
                   Some (round32 neg (scale10 (digits_value (ip @ fp)) (ex - int (length fp))), r3)))"

definition scan_float :: "string \<Rightarrow> (float32 \<times> string) option" where
  "scan_float inp =
     (case scan_sign inp of
        (neg, r) \<Rightarrow>
          if imatch [''iI'', ''nN'', ''fF'', ''iI'', ''nN'', ''iI'', ''tT'', ''yY''] r
            then Some (Infinity neg, drop 8 r)
          else if imatch [''iI'', ''nN'', ''fF''] r then Some (Infinity neg, drop 3 r)
          else if imatch [''nN'', ''aA'', ''nN''] r then Some (NaN, drop 3 r)
          else scan_decimal neg r)"

datatype directive = White | Literal char | Conv_f

fun parse_format :: "string \<Rightarrow> directive list" where
  "parse_format [] = []"
| "parse_format [c] = (if isspace c then [White] else [Literal c])"
| "parse_format (c # d # cs) =
     (if isspace c then White # parse_format (d # cs)
      else if c = CHR ''%'' \<and> d = CHR ''f'' then Conv_f # parse_format cs
      else Literal c # parse_format (d # cs))"

fun scan :: "directive list \<Rightarrow> string \<Rightarrow> float32 list \<Rightarrow> int \<times> float32 list" where
  "scan [] inp vs = (int (length vs), vs)"
| "scan (White # ds) inp vs = scan ds (dropWhile isspace inp) vs"
| "scan (Literal c # ds) inp vs =
     (case inp of
        [] \<Rightarrow> (if vs = [] then - 1 else int (length vs), vs)
      | x # xs \<Rightarrow> if x = c then scan ds xs vs else (int (length vs), vs))"
| "scan (Conv_f # ds) inp vs =
     (case dropWhile isspace inp of
        [] \<Rightarrow> (if vs = [] then - 1 else int (length vs), vs)
      | x # xs \<Rightarrow>
          (case scan_float (x # xs) of
             None \<Rightarrow> (int (length vs), vs)
           | Some (v, rest) \<Rightarrow> scan ds rest (vs @ [v])))"

definition sscanf :: "string \<Rightarrow> string \<Rightarrow> int \<times> float32 list" where
  "sscanf buf fmt = scan (parse_format fmt) buf []"

section \<open>The main loop\<close>

text \<open>
  The C library's pseudo-random generator is a hidden global state behind \<open>srand\<close> and
  \<open>rand\<close>. The library is not part of the sources, so it is a parameter here: the type
  of its state, the two functions and \<open>RAND_MAX\<close>.
\<close>

record 'g stdlib =
  lib_srand :: "32 word \<Rightarrow> 'g"
  lib_rand :: "'g \<Rightarrow> int \<times> 'g"
  lib_RAND_MAX :: int

text \<open>
  What one turn of the loop reads from outside: the result of \<open>uart_read_bytes\<close> (the
  count it returns and the bytes it stored), and the clock and message id seen by each
  of the three calls of \<open>publish_corriente\<close>.
\<close>

record cycle_input =
  uart_len :: int
  uart_data :: string
  env_cocina :: pub_env
  env_sala :: pub_env
  env_garage :: pub_env

definition sala_val :: "int \<Rightarrow> int \<Rightarrow> float32" where
  "sala_val rand_max r =
     fadd (float_lit 1) (fmul (fdiv (float_of_int r) (float_of_int rand_max)) (float_lit (1 / 2)))"

definition garage_val :: "int \<Rightarrow> int \<Rightarrow> float32" where
  "garage_val rand_max r =
     fadd (float_lit (13 / 5))
       (fmul (fdiv (float_of_int r) (float_of_int rand_max)) (float_lit (3 / 10)))"

definition add_log :: "log_entry \<Rightarrow> app_state \<Rightarrow> app_state" where
  "add_log l s = s\<lparr>logged := logged s @ [l]\<rparr>"

text \<open>The text in \<open>rx_buf\<close> once the program has stored the NUL after the bytes read.\<close>

definition rx_text :: "cycle_input \<Rightarrow> string" where
  "rx_text inp = c_str (take (nat (uart_len inp)) (uart_data inp))"

definition read_serial :: "cycle_input \<Rightarrow> app_state \<Rightarrow> app_state" where
  "read_serial inp s =
     (if 0 < uart_len inp then
        (let r = sscanf (rx_text inp) ''Current reading: %f A''
         in if fst r = 1
            then add_log (I_corriente (fmt_2f (hd (snd r))))
                   (publish_corriente ''Cocina'' (hd (snd r)) (env_cocina inp) s)
            else add_log (W_parse_failed (rx_text inp)) s)
      else add_log W_no_uart_data s)"

definition publish_synthetic :: "int \<Rightarrow> int \<Rightarrow> int \<Rightarrow> cycle_input \<Rightarrow> app_state \<Rightarrow> app_state" where
  "publish_synthetic rand_max r1 r2 inp s =
     add_log (I_corriente_garage (fmt_2f (garage_val rand_max r2)))
       (publish_corriente ''Garage'' (garage_val rand_max r2) (env_garage inp)
          (add_log (I_corriente_sala (fmt_2f (sala_val rand_max r1)))
             (publish_corriente ''Sala'' (sala_val rand_max r1) (env_sala inp) s)))"

definition cycle :: "'g stdlib \<Rightarrow> cycle_input \<Rightarrow> 'g \<times> app_state \<Rightarrow> 'g \<times> app_state" where
  "cycle L inp gs =
     (case gs of
        (g, s) \<Rightarrow>
          (case lib_rand L g of
             (r1, g1) \<Rightarrow>
               (case lib_rand L g1 of
                  (r2, g2) \<Rightarrow>
                    (g2, publish_synthetic (lib_RAND_MAX L) r1 r2 inp (read_serial inp s)))))"

text \<open>
  \<open>app_main\<close> after its initialisations: the generator is seeded with the low 32 bits of
  the microsecond timer, the client is started, and the loop runs; the loop never ends,
  so a run is given by the inputs of its first turns.
\<close>

definition app_main :: "'g stdlib \<Rightarrow> 64 word \<Rightarrow> handle option \<Rightarrow> cycle_input list \<Rightarrow> 'g \<times> app_state" where
  "app_main L timer init_result inps =
     foldl (\<lambda>gs inp. cycle L inp gs)
       (lib_srand L (ucast timer), mqtt_app_start init_result initial_state) inps"

text \<open>The comparison \<open><=\<close> of C on single-precision values; a NaN compares false.\<close>

fun float_le :: "float32 \<Rightarrow> float32 \<Rightarrow> bool" where
  "float_le (Finite s m) (Finite t n) = (signed s m \<le> signed t n)"
| "float_le (Finite s m) (Infinity t) = (\<not> t)"
| "float_le (Infinity s) (Finite t n) = s"
| "float_le (Infinity s) (Infinity t) = (s \<or> \<not> t)"
| "float_le _ _ = False"

text \<open>
  What the format \<open>Current reading: %f A\<close> amounts to: the text left once the prefix has
  matched, with the white space at its two blanks skipped, and the number converted
  from the start of that text.
\<close>

definition after_lit :: "string \<Rightarrow> string \<Rightarrow> string option" where
  "after_lit p inp = (if take (length p) inp = p then Some (drop (length p) inp) else None)"

definition after_prefix :: "string \<Rightarrow> string option" where
  "after_prefix b =
     (case after_lit ''Current'' b of
        None \<Rightarrow> None
      | Some r1 \<Rightarrow>
          (case after_lit ''reading:'' (dropWhile isspace r1) of
             None \<Rightarrow> None
           | Some r2 \<Rightarrow> Some (dropWhile isspace r2)))"

definition parse_current :: "string \<Rightarrow> float32 option" where
  "parse_current b =
     (case after_prefix b of None \<Rightarrow> None | Some t \<Rightarrow> map_option fst (scan_float t))"

text \<open>
  An instance of the library for the examples: a 64-bit linear congruential generator of
  the kind newlib has, with \<open>RAND_MAX = 2^31 - 1\<close>.
\<close>

definition lcg64 :: "64 word stdlib" where
  "lcg64 =
     \<lparr>lib_srand = ucast,
      lib_rand = (\<lambda>g. (uint (take_bit 31 (drop_bit 32 (g * 6364136223846793005 + 1))),
                        g * 6364136223846793005 + 1)),
      lib_RAND_MAX = 2147483647\<rparr>"

text \<open>The request \<open>publish_corriente\<close> hands to \<open>esp_mqtt_client_publish\<close>.\<close>

definition request :: "handle \<Rightarrow> string \<Rightarrow> float32 \<Rightarrow> pub_env \<Rightarrow> publish_request" where
  "request c fase I_rms e =
     \<lparr>pub_client = c, pub_topic = topic fase, pub_data = payload (now e) I_rms,
      pub_len = 0, pub_qos = 1, pub_retain = 0\<rparr>"

text \<open>The delivery options every request is to carry: QoS 1 and no retain flag.\<close>

definition qos1_no_retain :: "publish_request \<Rightarrow> bool" where
  "qos1_no_retain r = (pub_qos r = 1 \<and> pub_retain r = 0)"

text \<open>
  Modelled from the spec: the line a sender produces for a value, printing it with two
  decimals into the fixed template \<open>Current reading: <float> A\<close>. The sender is not part
  of the sources.
\<close>

definition serial_line :: "float32 \<Rightarrow> string" where
  "serial_line v = ''Current reading: '' @ fmt_2f v @ '' A''"

text \<open>
  Modelled from the spec: what it is for the text after the prefix to begin with a number,
  said of its first characters alone. After an optional sign comes a digit, or a point
  and a digit, or the word \<open>inf\<close> or \<open>nan\<close> in letters of either case.
\<close>

definition begins_number :: "string \<Rightarrow> bool" where
  "begins_number t =
     (let r = (case t of [] \<Rightarrow> [] | c # cs \<Rightarrow> if c = CHR ''-'' \<or> c = CHR ''+'' then cs else t)
      in (case r of
            [] \<Rightarrow> False
          | c # cs \<Rightarrow>
              isdigit c \<or> (c = CHR ''.'' \<and> (case cs of [] \<Rightarrow> False | d # ds \<Rightarrow> isdigit d))) \<or>
         (case r of
            a # b # c # cs \<Rightarrow>
              a \<in> set ''iI'' \<and> b \<in> set ''nN'' \<and> c \<in> set ''fF'' \<or>
              a \<in> set ''nN'' \<and> b \<in> set ''aA'' \<and> c \<in> set ''nN''
          | _ \<Rightarrow> False))"

text \<open>
  Modelled from the spec: a well-formed value of the template \<open>Current reading: <float> A\<close>,
  as a decimal number is written. It has an optional sign, digits before and after an
  optional point, at least one digit in all, and an optional exponent: the letter
  \<open>e\<close> or \<open>E\<close>, an optional sign and at least one digit. \<open>number_text\<close> is the text
  of such a number, \<open>number_value\<close> the magnitude it denotes and \<open>written_line\<close> the
  line that carries it.
\<close>

datatype sign_text = No_sign | Plus | Minus

fun sign_str :: "sign_text \<Rightarrow> string" where
  "sign_str No_sign = []"
| "sign_str Plus = ''+''"
| "sign_str Minus = ''-''"

record decimal_number =
  num_sign :: sign_text
  num_int :: string
  num_point :: bool
  num_frac :: string
  num_exp :: "(char \<times> sign_text \<times> string) option"

definition well_formed :: "decimal_number \<Rightarrow> bool" where
  "well_formed d =
     (list_all isdigit (num_int d) \<and> list_all isdigit (num_frac d) \<and>
      (num_int d \<noteq> [] \<or> num_frac d \<noteq> []) \<and> (num_frac d = [] \<or> num_point d) \<and>
      (case num_exp d of
         None \<Rightarrow> True
       | Some (e, sg, ds) \<Rightarrow> e \<in> set ''eE'' \<and> ds \<noteq> [] \<and> list_all isdigit ds))"

definition exponent_text :: "(char \<times> sign_text \<times> string) option \<Rightarrow> string" where
  "exponent_text ex = (case ex of None \<Rightarrow> [] | Some (e, sg, ds) \<Rightarrow> e # sign_str sg @ ds)"

definition exponent_value :: "(char \<times> sign_text \<times> string) option \<Rightarrow> int" where
  "exponent_value ex =
     (case ex of
        None \<Rightarrow> 0
      | Some (e, sg, ds) \<Rightarrow> if sg = Minus then - int (digits_value ds) else int (digits_value ds))"

definition number_text :: "decimal_number \<Rightarrow> string" where
  "number_text d =
     sign_str (num_sign d) @ num_int d @ (if num_point d then ''.'' else []) @ num_frac d @
     exponent_text (num_exp d)"

definition number_value :: "decimal_number \<Rightarrow> rat" where
  "number_value d =
     of_nat (digits_value (num_int d @ num_frac d)) *
     power_int 10 (exponent_value (num_exp d) - int (length (num_frac d)))"

definition written_line :: "decimal_number \<Rightarrow> string" where
  "written_line d = ''Current reading: '' @ number_text d @ '' A''"

section \<open>Rounding to single precision\<close>

lemma round_half_even_of_int: "round_half_even (of_int n) = n"
  by (simp add: round_half_even_def)

lemma round_half_even_near: "\<bar>x - of_int n\<bar> < 1 / 2 \<Longrightarrow> round_half_even x = n"
proof -
  assume a: "\<bar>x - of_int n\<bar> < 1 / 2"
  show ?thesis
  proof (cases "of_int n \<le> x")
    case True
    with a have "\<lfloor>x\<rfloor> = n" by (intro floor_unique) auto
    with a True show ?thesis by (simp add: round_half_even_def)
  next
    case False
    with a have f: "\<lfloor>x\<rfloor> = n - 1" by (intro floor_unique) auto
    with a False show ?thesis by (auto simp add: round_half_even_def Let_def)
  qed
qed

lemma round_half_even_mono: "x \<le> y \<Longrightarrow> round_half_even x \<le> round_half_even y"
proof -
  assume xy: "x \<le> y"
  then have fl: "\<lfloor>x\<rfloor> \<le> \<lfloor>y\<rfloor>" by (rule floor_mono)
  show ?thesis
  proof (cases "\<lfloor>x\<rfloor> = \<lfloor>y\<rfloor>")
    case True
    with xy show ?thesis by (auto simp add: round_half_even_def Let_def)
  next
    case False
    with fl have "\<lfloor>x\<rfloor> + 1 \<le> \<lfloor>y\<rfloor>" by simp
    moreover have "round_half_even x \<le> \<lfloor>x\<rfloor> + 1" "\<lfloor>y\<rfloor> \<le> round_half_even y"
      by (simp_all add: round_half_even_def Let_def)
    ultimately show ?thesis by linarith
  qed
qed

lemma round_half_even_le: "x \<le> of_int b \<Longrightarrow> round_half_even x \<le> b"
  using round_half_even_mono [of x "of_int b"] by (simp add: round_half_even_of_int)

lemma round_half_even_ge: "of_int a \<le> x \<Longrightarrow> a \<le> round_half_even x"
  using round_half_even_mono [of "of_int a" x] by (simp add: round_half_even_of_int)

lemma denorm_min_pos: "0 < denorm_min"
  by (simp add: denorm_min_def)

lemma scaled_less_iff: "(nat \<lfloor>x\<rfloor> < 2 ^ j) = (x < 2 ^ j)" for x :: rat
proof -
  have "(nat \<lfloor>x\<rfloor> < 2 ^ j) = (\<lfloor>x\<rfloor> < 2 ^ j)"
    by (simp add: nat_less_iff)
  also have "\<dots> = (x < of_int (2 ^ j))"
    by (rule floor_less_iff)
  finally show ?thesis by simp
qed

lemma scaled_ge_iff: "(2 ^ j \<le> nat \<lfloor>x\<rfloor>) = (2 ^ j \<le> x)" for x :: rat
  using scaled_less_iff [of x j] by (simp add: not_less [symmetric])

lemma shift_of_upper: "m / denorm_min < 2 ^ (24 + shift_of m)"
proof -
  have "floorlog 2 (nat \<lfloor>m / denorm_min\<rfloor>) \<le> 24 + shift_of m"
    by (simp add: shift_of_def)
  then have "nat \<lfloor>m / denorm_min\<rfloor> < 2 ^ (24 + shift_of m)"
    by (rule floorlog_leD) simp
  then show ?thesis by (simp only: scaled_less_iff)
qed

lemma shift_of_lower: "0 < shift_of m \<Longrightarrow> 2 ^ (23 + shift_of m) \<le> m / denorm_min"
proof -
  assume "0 < shift_of m"
  then have "24 + shift_of m \<le> floorlog 2 (nat \<lfloor>m / denorm_min\<rfloor>)"
    by (simp add: shift_of_def)
  then have "2 ^ (24 + shift_of m - 1) \<le> nat \<lfloor>m / denorm_min\<rfloor>"
    by (rule floorlog_geD) simp
  then have "2 ^ (23 + shift_of m) \<le> nat \<lfloor>m / denorm_min\<rfloor>" by simp
  then show ?thesis by (simp only: scaled_ge_iff)
qed

lemma shift_of_mono: "x \<le> y \<Longrightarrow> shift_of x \<le> shift_of y"
proof -
  assume "x \<le> y"
  then have "x / denorm_min \<le> y / denorm_min"
    using denorm_min_pos by (simp add: divide_right_mono)
  then have "nat \<lfloor>x / denorm_min\<rfloor> \<le> nat \<lfloor>y / denorm_min\<rfloor>"
    by (intro nat_mono floor_mono)
  then have "floorlog 2 (nat \<lfloor>x / denorm_min\<rfloor>) \<le> floorlog 2 (nat \<lfloor>y / denorm_min\<rfloor>)"
    by (rule floorlog_mono)
  then show ?thesis by (simp add: shift_of_def)
qed

lemma shift_of_eqI:
  "2 ^ (23 + k) \<le> m / denorm_min \<Longrightarrow> m / denorm_min < 2 ^ (24 + k) \<Longrightarrow> shift_of m = k"
proof -
  assume lo: "2 ^ (23 + k) \<le> m / denorm_min" and hi: "m / denorm_min < 2 ^ (24 + k)"
  from lo have "2 ^ (23 + k) \<le> nat \<lfloor>m / denorm_min\<rfloor>" by (simp only: scaled_ge_iff)
  then have "Suc (23 + k) \<le> floorlog 2 (nat \<lfloor>m / denorm_min\<rfloor>)"
    by (rule floorlog_ge_SucI) simp
  moreover from hi have "nat \<lfloor>m / denorm_min\<rfloor> < 2 ^ (24 + k)" by (simp only: scaled_less_iff)
  then have "floorlog 2 (nat \<lfloor>m / denorm_min\<rfloor>) \<le> 24 + k"
    by (intro floorlog_leI) simp_all
  ultimately show ?thesis by (simp add: shift_of_def)
qed

lemma shift_of_zeroI: "m / denorm_min < 2 ^ 24 \<Longrightarrow> shift_of m = 0"
proof -
  assume hi: "m / denorm_min < 2 ^ 24"
  then have "nat \<lfloor>m / denorm_min\<rfloor> < 2 ^ 24" by (simp only: scaled_less_iff)
  then have "floorlog 2 (nat \<lfloor>m / denorm_min\<rfloor>) \<le> 24"
    by (intro floorlog_leI) simp_all
  then show ?thesis by (simp add: shift_of_def)
qed

lemma significand_le: "significand m \<le> 2 ^ 24"
proof -
  have "m / denorm_min < 2 ^ 24 * 2 ^ shift_of m"
    using shift_of_upper [of m] by (simp only: power_add)
  then have "m / denorm_min / 2 ^ shift_of m < 2 ^ 24"
    by (subst pos_divide_less_eq) simp_all
  then have "m / denorm_min / 2 ^ shift_of m \<le> of_int (2 ^ 24)" by simp
  then show ?thesis unfolding significand_def by (rule round_half_even_le)
qed

lemma significand_ge: "0 < shift_of m \<Longrightarrow> 2 ^ 23 \<le> significand m"
proof -
  assume "0 < shift_of m"
  then have "2 ^ 23 * 2 ^ shift_of m \<le> m / denorm_min"
    using shift_of_lower [of m] by (simp only: power_add)
  then have "2 ^ 23 \<le> m / denorm_min / 2 ^ shift_of m"
    by (subst pos_le_divide_eq) simp_all
  then have "of_int (2 ^ 23) \<le> m / denorm_min / 2 ^ shift_of m"
    by simp
  then show ?thesis unfolding significand_def by (rule round_half_even_ge)
qed

lemma units_mono: "x \<le> y \<Longrightarrow> significand x * 2 ^ shift_of x \<le> significand y * 2 ^ shift_of y"
proof -
  assume xy: "x \<le> y"
  then have k: "shift_of x \<le> shift_of y" by (rule shift_of_mono)
  show ?thesis
  proof (cases "shift_of x = shift_of y")
    case True
    from xy have "x / denorm_min / 2 ^ shift_of y \<le> y / denorm_min / 2 ^ shift_of y"
      using denorm_min_pos by (simp add: divide_right_mono)
    then have "significand x \<le> significand y"
      unfolding significand_def True by (rule round_half_even_mono)
    then show ?thesis by (simp add: True)
  next
    case False
    with k have lt: "shift_of x < shift_of y" by simp
    then have pos: "0 < shift_of y" by simp
    have "significand x * 2 ^ shift_of x \<le> 2 ^ 24 * 2 ^ shift_of x"
      using significand_le [of x] by (simp add: mult_right_mono)
    also have "\<dots> = (2::int) ^ (24 + shift_of x)" by (simp add: power_add)
    also have "\<dots> \<le> 2 ^ (23 + shift_of y)"
      using lt by (intro power_increasing) simp_all
    also have "\<dots> = 2 ^ 23 * 2 ^ shift_of y" by (simp add: power_add)
    also have "\<dots> \<le> significand y * 2 ^ shift_of y"
      using significand_ge [OF pos] by (simp add: mult_right_mono)
    finally show ?thesis .
  qed
qed

lemma round32_val_mono: "x \<le> y \<Longrightarrow> round32_val x \<le> round32_val y"
proof -
  assume "x \<le> y"
  then have "(of_int (significand x * 2 ^ shift_of x) :: rat) \<le>
      of_int (significand y * 2 ^ shift_of y)"
    by (simp only: of_int_le_iff units_mono)
  then show ?thesis
    using denorm_min_pos by (simp only: round32_val_def mult_right_mono less_imp_le)
qed

text \<open>Evaluating the rounding at a given magnitude, from its binade and its nearest integer.\<close>

lemma round32_val_eqI:
  assumes "2 ^ (23 + k) \<le> m / denorm_min" and "m / denorm_min < 2 ^ (24 + k)"
    and "\<bar>m / denorm_min / 2 ^ k - of_int n\<bar> < 1 / 2"
  shows "round32_val m = of_int (n * 2 ^ k) * denorm_min"
proof -
  have k: "shift_of m = k" using assms(1,2) by (rule shift_of_eqI)
  have "significand m = n"
    unfolding significand_def k using assms(3) by (rule round_half_even_near)
  with k show ?thesis by (simp only: round32_val_def)
qed

lemma round32_val_small_eqI:
  assumes "m / denorm_min < 2 ^ 24" and "\<bar>m / denorm_min - of_int n\<bar> < 1 / 2"
  shows "round32_val m = of_int n * denorm_min"
proof -
  have k: "shift_of m = 0" using assms(1) by (rule shift_of_zeroI)
  have "significand m = n"
    unfolding significand_def k using assms(2) by (intro round_half_even_near) simp
  with k show ?thesis by (simp add: round32_val_def)
qed

section \<open>Publishing one reading\<close>

lemma length_snprintf: "length (snprintf n formatted) \<le> n - 1"
  by (simp add: snprintf_def)

lemma c_str_no_nul: "CHR 0x00 \<notin> set (c_str s)"
  unfolding c_str_def by (induction s) auto

lemma publish_corriente_None:
  "g_client s = None \<Longrightarrow>
     publish_corriente fase I_rms e s = s\<lparr>logged := logged s @ [W_client_not_initialised]\<rparr>"
  by (simp add: publish_corriente_def)

lemma publish_corriente_Some:
  "g_client s = Some c \<Longrightarrow>
     publish_corriente fase I_rms e s =
       s\<lparr>published := published s @
            [\<lparr>pub_client = c, pub_topic = topic fase, pub_data = payload (now e) I_rms,
              pub_len = 0, pub_qos = 1, pub_retain = 0\<rparr>],
         logged := logged s @ [I_published (msg_id e) (topic fase) (payload (now e) I_rms)]\<rparr>"
  by (simp add: publish_corriente_def)

section \<open>The constants and the arithmetic of the synthetic channels\<close>

lemma round32_val_0: "round32_val 0 = 0"
  using round32_val_small_eqI [of 0 0] by simp

lemma round32_val_1: "round32_val 1 = 1"
  using round32_val_eqI [of 126 1 "2 ^ 23"] by (simp add: denorm_min_def)

lemma round32_val_half: "round32_val (1 / 2) = 1 / 2"
  using round32_val_eqI [of 125 "1 / 2" "2 ^ 23"] by (simp add: denorm_min_def)

lemma round32_val_3_2: "round32_val (3 / 2) = 3 / 2"
  using round32_val_eqI [of 126 "3 / 2" "3 * 2 ^ 22"] by (simp add: denorm_min_def)

lemma round32_val_2_31: "round32_val 2147483648 = 2147483648"
  using round32_val_eqI [of 157 "2147483648" "2 ^ 23"] by (simp add: denorm_min_def)

lemma round32_val_2_6: "round32_val (13 / 5) = 5452595 / 2097152"
  using round32_val_eqI [of 127 "13 / 5" 10905190] by (simp add: denorm_min_def)

lemma round32_val_0_3: "round32_val (3 / 10) = 5033165 / 16777216"
  using round32_val_eqI [of 124 "3 / 10" 10066330] by (simp add: denorm_min_def)

lemma round32_val_0_3f: "round32_val (5033165 / 16777216) = 5033165 / 16777216"
  using round32_val_eqI [of 124 "5033165 / 16777216" 10066330] by (simp add: denorm_min_def)

lemma round32_val_2_6f: "round32_val (5452595 / 2097152) = 5452595 / 2097152"
  using round32_val_eqI [of 127 "5452595 / 2097152" 10905190] by (simp add: denorm_min_def)

lemma round32_val_2_9: "round32_val (29 / 10) = 6081741 / 2097152"
  using round32_val_eqI [of 127 "29 / 10" 12163482] by (simp add: denorm_min_def)

lemma round32_val_garage_max: "round32_val (48653925 / 16777216) = 12163481 / 4194304"
  using round32_val_eqI [of 127 "48653925 / 16777216" 12163481]
  by (simp add: denorm_min_def)

lemma round32_between:
  assumes "a \<le> m" and "m \<le> b" and "round32_val a = a'" and "round32_val b = b'"
    and "b' < 2 ^ 128"
  shows "round32 s m = Finite s (round32_val m) \<and> a' \<le> round32_val m \<and> round32_val m \<le> b'"
proof -
  have lo: "a' \<le> round32_val m"
    using round32_val_mono [OF assms(1)] assms(3) by simp
  have hi: "round32_val m \<le> b'"
    using round32_val_mono [OF assms(2)] assms(4) by simp
  from hi assms(5) have "round32_val m < 2 ^ 128" by (rule le_less_trans)
  then have "round32 s m = Finite s (round32_val m)"
    by (simp add: round32_def)
  with lo hi show ?thesis by simp
qed

lemma float_lit_1: "float_lit 1 = Finite False 1"
  using round32_between [of 1 1 1 1 1 False] by (simp add: float_lit_def round32_val_1)

lemma float_lit_half: "float_lit (1 / 2) = Finite False (1 / 2)"
  using round32_between [of "1 / 2" "1 / 2" "1 / 2" "1 / 2" "1 / 2" False]
  by (simp add: float_lit_def round32_val_half)

lemma float_lit_3_2: "float_lit (3 / 2) = Finite False (3 / 2)"
  using round32_between [of "3 / 2" "3 / 2" "3 / 2" "3 / 2" "3 / 2" False]
  by (simp add: float_lit_def round32_val_3_2)

lemma float_lit_2_6: "float_lit (13 / 5) = Finite False (5452595 / 2097152)"
  using round32_between [of "13 / 5" "13 / 5" "13 / 5" "5452595 / 2097152" "5452595 / 2097152" False]
  by (simp add: float_lit_def round32_val_2_6)

lemma float_lit_0_3: "float_lit (3 / 10) = Finite False (5033165 / 16777216)"
  using round32_between [of "3 / 10" "3 / 10" "3 / 10" "5033165 / 16777216" "5033165 / 16777216" False]
  by (simp add: float_lit_def round32_val_0_3)

lemma float_lit_2_9: "float_lit (29 / 10) = Finite False (6081741 / 2097152)"
  using round32_between [of "29 / 10" "29 / 10" "29 / 10" "6081741 / 2097152" "6081741 / 2097152" False]
  by (simp add: float_lit_def round32_val_2_9)

lemma float_of_int_range:
  assumes "0 \<le> r" and "r \<le> 2147483647"
  shows "float_of_int r = Finite False (round32_val (of_int r)) \<and>
         0 \<le> round32_val (of_int r) \<and> round32_val (of_int r) \<le> 2147483648"
proof -
  have "(0::rat) \<le> of_int r" "(of_int r :: rat) \<le> 2147483648"
    using assms by simp_all
  then have "round32 False (of_int r) = Finite False (round32_val (of_int r)) \<and>
      0 \<le> round32_val (of_int r) \<and> round32_val (of_int r) \<le> 2147483648"
    by (rule round32_between) (simp_all add: round32_val_0 round32_val_2_31)
  with assms(1) show ?thesis by (simp add: float_of_int_def)
qed

lemma unit_ratio:
  assumes "0 < R" and "R \<le> 2147483647" and "0 \<le> r" and "r \<le> R"
  shows "\<exists>y. fdiv (float_of_int r) (float_of_int R) = Finite False y \<and> 0 \<le> y \<and> y \<le> 1"
proof -
  let ?xr = "round32_val (of_int r)" and ?xR = "round32_val (of_int R)"
  from assms have r: "float_of_int r = Finite False ?xr" "0 \<le> ?xr"
    using float_of_int_range [of r] by simp_all
  from assms have R: "float_of_int R = Finite False ?xR"
    using float_of_int_range [of R] by simp_all
  have "(1::rat) \<le> of_int R" using assms(1) by simp
  then have "round32_val 1 \<le> ?xR" by (rule round32_val_mono)
  then have R1: "1 \<le> ?xR" by (simp add: round32_val_1)
  have "(of_int r :: rat) \<le> of_int R" using assms(4) by simp
  then have rR: "?xr \<le> ?xR" by (rule round32_val_mono)
  have q0: "0 \<le> ?xr / ?xR" using r(2) R1 by simp
  have q1: "?xr / ?xR \<le> 1" using rR R1 by (simp add: divide_le_eq_1)
  from q0 q1 have "round32 False (?xr / ?xR) = Finite False (round32_val (?xr / ?xR)) \<and>
      0 \<le> round32_val (?xr / ?xR) \<and> round32_val (?xr / ?xR) \<le> 1"
    by (rule round32_between) (simp_all add: round32_val_0 round32_val_1)
  moreover have "fdiv (float_of_int r) (float_of_int R) = round32 False (?xr / ?xR)"
    using R1 by (simp add: r(1) R)
  ultimately show ?thesis by simp
qed

lemma sala_val_range:
  assumes "0 < R" and "R \<le> 2147483647" and "0 \<le> r" and "r \<le> R"
  shows "\<exists>x. sala_val R r = Finite False x \<and> 1 \<le> x \<and> x \<le> 3 / 2"
proof -
  from unit_ratio [OF assms] obtain y
    where y: "fdiv (float_of_int r) (float_of_int R) = Finite False y" "0 \<le> y" "y \<le> 1"
    by blast
  have "0 \<le> y * (1 / 2)" "y * (1 / 2) \<le> 1 / 2" using y(2,3) by simp_all
  then have z: "round32 False (y * (1 / 2)) = Finite False (round32_val (y * (1 / 2))) \<and>
      0 \<le> round32_val (y * (1 / 2)) \<and> round32_val (y * (1 / 2)) \<le> 1 / 2"
    by (rule round32_between) (simp_all add: round32_val_0 round32_val_half)
  let ?z = "round32_val (y * (1 / 2))"
  have "1 \<le> 1 + ?z" "1 + ?z \<le> 3 / 2" using z by simp_all
  then have w: "round32 False (1 + ?z) = Finite False (round32_val (1 + ?z)) \<and>
      1 \<le> round32_val (1 + ?z) \<and> round32_val (1 + ?z) \<le> 3 / 2"
    by (rule round32_between) (simp_all add: round32_val_1 round32_val_3_2)
  have "sala_val R r = round32 False (1 + ?z)"
    using z by (simp add: sala_val_def y(1) float_lit_1 float_lit_half signed_def Let_def)
  with w show ?thesis by simp
qed

lemma garage_val_range:
  assumes "0 < R" and "R \<le> 2147483647" and "0 \<le> r" and "r \<le> R"
  shows "\<exists>x. garage_val R r = Finite False x \<and> 5452595 / 2097152 \<le> x \<and> x \<le> 12163481 / 4194304"
proof -
  from unit_ratio [OF assms] obtain y
    where y: "fdiv (float_of_int r) (float_of_int R) = Finite False y" "0 \<le> y" "y \<le> 1"
    by blast
  let ?c = "5033165 / 16777216 :: rat" and ?g = "5452595 / 2097152 :: rat"
  have "0 \<le> y * ?c" "y * ?c \<le> ?c" using y(2,3) by simp_all
  then have z: "round32 False (y * ?c) = Finite False (round32_val (y * ?c)) \<and>
      0 \<le> round32_val (y * ?c) \<and> round32_val (y * ?c) \<le> ?c"
    by (rule round32_between) (simp_all add: round32_val_0 round32_val_0_3f)
  let ?z = "round32_val (y * ?c)"
  have "?g \<le> ?g + ?z" "?g + ?z \<le> 48653925 / 16777216" using z by simp_all
  then have w: "round32 False (?g + ?z) = Finite False (round32_val (?g + ?z)) \<and>
      ?g \<le> round32_val (?g + ?z) \<and> round32_val (?g + ?z) \<le> 12163481 / 4194304"
    by (rule round32_between) (simp_all add: round32_val_2_6f round32_val_garage_max)
  have "?g + ?z \<noteq> 0" using z by simp
  then have "garage_val R r = round32 False (?g + ?z)"
    using z by (simp add: garage_val_def y(1) float_lit_2_6 float_lit_0_3 signed_def Let_def)
  with w show ?thesis by simp
qed

lemma round_half_even_ge_half: "of_int a - 1 / 2 < x \<Longrightarrow> a \<le> round_half_even x"
proof -
  assume a: "of_int a - 1 / 2 < x"
  then have "of_int (a - 1) \<le> x" by simp
  then have f: "a - 1 \<le> \<lfloor>x\<rfloor>" by (simp add: le_floor_iff)
  show ?thesis
  proof (cases "a \<le> \<lfloor>x\<rfloor>")
    case True
    moreover have "\<lfloor>x\<rfloor> \<le> round_half_even x" by (simp add: round_half_even_def Let_def)
    ultimately show ?thesis by linarith
  next
    case False
    with f have "\<lfloor>x\<rfloor> = a - 1" by linarith
    with a show ?thesis by (simp add: round_half_even_def Let_def)
  qed
qed

lemma round_half_even_le_half: "x < of_int b + 1 / 2 \<Longrightarrow> round_half_even x \<le> b"
proof -
  assume b: "x < of_int b + 1 / 2"
  then have "x < of_int (b + 1)" by simp
  then have "\<lfloor>x\<rfloor> < b + 1" by (simp only: floor_less_iff)
  then have f: "\<lfloor>x\<rfloor> \<le> b" by simp
  show ?thesis
  proof (cases "\<lfloor>x\<rfloor> = b")
    case True
    with b show ?thesis by (simp add: round_half_even_def Let_def)
  next
    case False
    with f have "\<lfloor>x\<rfloor> + 1 \<le> b" by linarith
    moreover have "round_half_even x \<le> \<lfloor>x\<rfloor> + 1" by (simp add: round_half_even_def Let_def)
    ultimately show ?thesis by linarith
  qed
qed

lemma hundredths_between:
  assumes "of_nat a - 1 / 2 < m * 100" and "m * 100 < of_nat b + 1 / 2"
  shows "a \<le> hundredths m \<and> hundredths m \<le> b"
proof -
  have "of_int (int a) - 1 / 2 < m * 100" using assms(1) by simp
  then have lo: "int a \<le> round_half_even (m * 100)" by (rule round_half_even_ge_half)
  have "m * 100 < of_int (int b) + 1 / 2" using assms(2) by simp
  then have hi: "round_half_even (m * 100) \<le> int b" by (rule round_half_even_le_half)
  from lo hi show ?thesis unfolding hundredths_def by linarith
qed

section \<open>The format of the serial line\<close>

lemma parse_format_current:
  "parse_format ''Current reading: %f A'' =
     map Literal ''Current'' @ White # map Literal ''reading:'' @ [White, Conv_f, White, Literal CHR ''A'']"
  by (simp add: isspace_def)

lemma scan_literals_Some:
  "after_lit p inp = Some r \<Longrightarrow> scan (map Literal p @ ds) inp vs = scan ds r vs"
proof (induction p arbitrary: inp)
  case Nil
  then show ?case by (simp add: after_lit_def)
next
  case (Cons c p)
  from Cons.prems obtain inp' where inp: "inp = c # inp'" and rest: "after_lit p inp' = Some r"
    by (cases inp) (auto simp: after_lit_def split: if_splits)
  from Cons.IH [OF rest] show ?case by (simp add: inp)
qed

lemma scan_literals_None:
  "after_lit p inp = None \<Longrightarrow>
     fst (scan (map Literal p @ ds) inp []) \<le> 0 \<and> snd (scan (map Literal p @ ds) inp []) = []"
proof (induction p arbitrary: inp)
  case Nil
  then show ?case by (simp add: after_lit_def)
next
  case (Cons c p)
  show ?case
  proof (cases inp)
    case Nil
    then show ?thesis by simp
  next
    case (Cons x xs)
    show ?thesis
    proof (cases "x = c")
      case True
      with Cons.prems Cons have "after_lit p xs = None"
        by (auto simp: after_lit_def split: if_splits)
      from Cons.IH [OF this] show ?thesis by (simp add: Cons True)
    next
      case False
      then show ?thesis by (simp add: Cons)
    qed
  qed
qed

lemma dropWhile_isspace_idem: "dropWhile isspace (dropWhile isspace xs) = dropWhile isspace xs"
  by (induction xs) auto

lemma scan_float_Nil: "scan_float [] = None"
  by (simp add: scan_float_def scan_sign_def scan_decimal_def)

lemma scan_tail: "scan [White, Literal c] rest [v] = (1, [v])"
  by (simp split: list.splits)

lemma scan_conv_aux:
  assumes "dropWhile isspace t = t"
  shows "scan [Conv_f, White, Literal c] t [] =
     (case scan_float t of
        None \<Rightarrow> (if t = [] then - 1 else 0, [])
      | Some (v, rest) \<Rightarrow> (1, [v]))"
proof (cases t)
  case Nil
  then show ?thesis by (simp add: scan_float_Nil)
next
  case (Cons x xs)
  with assms have d: "dropWhile isspace (x # xs) = x # xs" by simp
  have "scan [Conv_f, White, Literal c] (x # xs) [] =
      (case dropWhile isspace (x # xs) of
         [] \<Rightarrow> (if [] = ([] :: float32 list) then - 1 else int (length ([] :: float32 list)), [])
       | y # ys \<Rightarrow>
           (case scan_float (y # ys) of
              None \<Rightarrow> (int (length ([] :: float32 list)), [])
            | Some (v, rest) \<Rightarrow> scan [White, Literal c] rest ([] @ [v])))"
    by (rule scan.simps(4))
  also have "\<dots> =
      (case scan_float (x # xs) of
         None \<Rightarrow> (0, [])
       | Some (v, rest) \<Rightarrow> (1, [v]))"
    by (simp only: d list.case) (simp add: scan_tail del: scan.simps split: option.splits)
  finally show ?thesis by (simp add: Cons)
qed

lemma scan_conv:
  "scan [White, Conv_f, White, Literal c] r [] =
     (case scan_float (dropWhile isspace r) of
        None \<Rightarrow> (if dropWhile isspace r = [] then - 1 else 0, [])
      | Some (v, rest) \<Rightarrow> (1, [v]))"
  using scan_conv_aux [where t = "dropWhile isspace r" and c = c, OF dropWhile_isspace_idem]
  by (simp only: scan.simps)

lemma sscanf_Some:
  assumes "parse_current b = Some v"
  shows "sscanf b ''Current reading: %f A'' = (1, [v])"
proof -
  from assms obtain r1 r2 rest where r1: "after_lit ''Current'' b = Some r1"
    and r2: "after_lit ''reading:'' (dropWhile isspace r1) = Some r2"
    and f: "scan_float (dropWhile isspace r2) = Some (v, rest)"
    by (auto simp: parse_current_def after_prefix_def split: option.splits)
  have "sscanf b ''Current reading: %f A'' =
      scan (White # map Literal ''reading:'' @ [White, Conv_f, White, Literal CHR ''A'']) r1 []"
    unfolding sscanf_def parse_format_current by (rule scan_literals_Some [OF r1])
  also have "\<dots> = scan (map Literal ''reading:'' @ [White, Conv_f, White, Literal CHR ''A''])
      (dropWhile isspace r1) []"
    by simp
  also have "\<dots> = scan [White, Conv_f, White, Literal CHR ''A''] r2 []"
    by (rule scan_literals_Some [OF r2])
  also have "\<dots> = (1, [v])"
    by (simp only: scan_conv f option.case prod.case)
  finally show ?thesis .
qed

lemma sscanf_None:
  assumes "parse_current b = None"
  shows "fst (sscanf b ''Current reading: %f A'') \<le> 0 \<and> snd (sscanf b ''Current reading: %f A'') = []"
proof (cases "after_lit ''Current'' b")
  case None
  then show ?thesis
    unfolding sscanf_def parse_format_current by (rule scan_literals_None)
next
  case (Some r1)
  have step1: "sscanf b ''Current reading: %f A'' =
      scan (map Literal ''reading:'' @ [White, Conv_f, White, Literal CHR ''A''])
        (dropWhile isspace r1) []"
    unfolding sscanf_def parse_format_current
    by (simp only: scan_literals_Some [OF Some] scan.simps)
  show ?thesis
  proof (cases "after_lit ''reading:'' (dropWhile isspace r1)")
    case None
    then show ?thesis
      unfolding step1 by (rule scan_literals_None)
  next
    case r2: (Some r2)
    from assms Some r2 have f: "scan_float (dropWhile isspace r2) = None"
      by (simp add: parse_current_def after_prefix_def)
    have "sscanf b ''Current reading: %f A'' = scan [White, Conv_f, White, Literal CHR ''A''] r2 []"
      unfolding step1 by (rule scan_literals_Some [OF r2])
    then show ?thesis
      by (simp only: scan_conv f option.case) simp
  qed
qed

lemma sscanf_ok_iff: "(fst (sscanf b ''Current reading: %f A'') = 1) = (parse_current b \<noteq> None)"
proof (cases "parse_current b")
  case None
  with sscanf_None [OF None] show ?thesis by simp
next
  case (Some v)
  with sscanf_Some [OF Some] show ?thesis by simp
qed

section \<open>One turn of the loop\<close>

lemma published_add_log [simp]: "published (add_log l s) = published s"
  by (simp add: add_log_def)

lemma g_client_add_log [simp]: "g_client (add_log l s) = g_client s"
  by (simp add: add_log_def)

lemma g_client_publish_corriente [simp]:
  "g_client (publish_corriente fase I_rms e s) = g_client s"
  by (simp add: publish_corriente_def split: option.splits)

lemma published_publish_corriente:
  "published (publish_corriente fase I_rms e s) =
     published s @ (case g_client s of None \<Rightarrow> [] | Some c \<Rightarrow> [request c fase I_rms e])"
  by (simp add: publish_corriente_def request_def split: option.splits)

lemma read_serial_no_data:
  "uart_len inp \<le> 0 \<Longrightarrow> read_serial inp s = add_log W_no_uart_data s"
  by (simp add: read_serial_def)

lemma read_serial_failed:
  "0 < uart_len inp \<Longrightarrow> parse_current (rx_text inp) = None \<Longrightarrow>
     read_serial inp s = add_log (W_parse_failed (rx_text inp)) s"
  using sscanf_None [of "rx_text inp"] by (simp add: read_serial_def Let_def)

lemma read_serial_parsed:
  "0 < uart_len inp \<Longrightarrow> parse_current (rx_text inp) = Some v \<Longrightarrow>
     read_serial inp s =
       add_log (I_corriente (fmt_2f v)) (publish_corriente ''Cocina'' v (env_cocina inp) s)"
  using sscanf_Some [of "rx_text inp" v] by (simp add: read_serial_def Let_def)

lemma g_client_read_serial [simp]: "g_client (read_serial inp s) = g_client s"
  by (simp add: read_serial_def Let_def)

lemma published_publish_synthetic:
  "published (publish_synthetic R r1 r2 inp s) =
     published s @
     (case g_client s of
        None \<Rightarrow> []
      | Some c \<Rightarrow>
          [request c ''Sala'' (sala_val R r1) (env_sala inp),
           request c ''Garage'' (garage_val R r2) (env_garage inp)])"
  by (simp add: publish_synthetic_def published_publish_corriente split: option.splits)

lemma g_client_publish_synthetic [simp]: "g_client (publish_synthetic R r1 r2 inp s) = g_client s"
  by (simp add: publish_synthetic_def)

lemma snd_cycle:
  "snd (cycle L inp (g, s)) =
     publish_synthetic (lib_RAND_MAX L) (fst (lib_rand L g))
       (fst (lib_rand L (snd (lib_rand L g)))) inp (read_serial inp s)"
  by (simp add: cycle_def split: prod.splits)

lemma fst_cycle: "fst (cycle L inp (g, s)) = snd (lib_rand L (snd (lib_rand L g)))"
  by (simp add: cycle_def split: prod.splits)

lemma topic_Sala: "topic ''Sala'' = ''casa/Sala/corriente''"
  by (simp add: topic_def snprintf_def c_str_def)

lemma topic_Garage: "topic ''Garage'' = ''casa/Garage/corriente''"
  by (simp add: topic_def snprintf_def c_str_def)

lemma topic_Cocina: "topic ''Cocina'' = ''casa/Cocina/corriente''"
  by (simp add: topic_def snprintf_def c_str_def)

section \<open>Evaluating the parser and the formatting\<close>

lemmas scan_defs = parse_current_def after_prefix_def after_lit_def isspace_def scan_float_def
  scan_sign_def scan_decimal_def scan_exponent_def isdigit_def digits_value_def scale10_def

lemma hundredths_eqI: "\<bar>m * 100 - of_nat h\<bar> < 1 / 2 \<Longrightarrow> hundredths m = h"
  using round_half_even_near [of "m * 100" "int h"] by (simp add: hundredths_def)

lemma round32_5: "round32 s 5 = Finite s 5"
proof -
  have "round32_val 5 = 5"
    using round32_val_eqI [of 128 5 10485760] by (simp add: denorm_min_def)
  then show ?thesis by (simp add: round32_def)
qed

lemma round32_12_34: "round32 s (617 / 50) = Finite s (3234857 / 262144)"
proof -
  have "round32_val (617 / 50) = 3234857 / 262144"
    using round32_val_eqI [of 129 "617 / 50" 12939428] by (simp add: denorm_min_def)
  then show ?thesis by (simp add: round32_def)
qed

lemma parse_squeezed: "parse_current ''Currentreading:5 A'' = Some (Finite False 5)"
  by (simp add: scan_defs round32_5)

lemma parse_12_34: "parse_current ''Current reading: 12.34 A'' = Some (Finite False (3234857 / 262144))"
  by (simp add: scan_defs round32_12_34)

lemma parse_garbage: "parse_current ''garbage'' = None"
  by (simp add: scan_defs)

lemma parse_nan: "parse_current ''Current reading: nan A'' = Some NaN"
  by (simp add: scan_defs)

lemma parse_abc: "parse_current ''Current reading: abc A'' = None"
  by (simp add: scan_defs)

lemma fmt_12_34: "fmt_2f (Finite False (3234857 / 262144)) = ''12.34''"
proof -
  have "hundredths (3234857 / 262144) = 1234"
    by (rule hundredths_eqI) simp
  then show ?thesis
    by (simp add: fmt_2f_def dec_nat.simps digit_def)
qed

lemma parse_current_malformed:
  assumes "b = [] \<or> after_prefix b = None \<or> (\<exists>t. after_prefix b = Some t \<and> scan_float t = None)"
  shows "parse_current b = None"
  using assms by (auto simp: parse_current_def after_prefix_def after_lit_def)

lemma rx_text_no_data: "uart_len inp \<le> 0 \<Longrightarrow> rx_text inp = []"
  by (simp add: rx_text_def c_str_def)

lemma fmt_5: "fmt_2f (Finite False 5) = ''5.00''"
proof -
  have "hundredths 5 = 500"
    by (rule hundredths_eqI) simp
  then show ?thesis
    by (simp add: fmt_2f_def dec_nat.simps digit_def)
qed

lemma payload_1717000000:
  "payload 1717000000 v =
     ''{'' @ [CHR 0x22] @ ''ts'' @ [CHR 0x22] @ '':1717000000,'' @ [CHR 0x22] @ ''I'' @ [CHR 0x22] @
     '':'' @ take 106 (fmt_2f v @ ''}'')"
  by (simp add: payload_def snprintf_def fmt_lld_def dec_nat.simps digit_def)

lemma round32_overflow: "2 ^ 128 \<le> m \<Longrightarrow> round32 s m = Infinity s"
proof -
  assume "2 ^ 128 \<le> m"
  then have "round32_val (2 ^ 128) \<le> round32_val m" by (rule round32_val_mono)
  moreover have "round32_val (2 ^ 128) = 2 ^ 128"
    using round32_val_eqI [of 254 "2 ^ 128" "2 ^ 23"] by (simp add: denorm_min_def)
  ultimately show ?thesis by (simp add: round32_def)
qed

lemma parse_1e39: "parse_current ''Current reading: 1e39 A'' = Some (Infinity False)"
  by (simp add: scan_defs round32_overflow)

lemma published_read_serial_parsed:
  assumes "0 < uart_len inp" and "parse_current (rx_text inp) = Some v" and "g_client s = Some c"
  shows "published (read_serial inp s) = published s @ [request c ''Cocina'' v (env_cocina inp)]"
  using assms by (simp add: read_serial_parsed published_publish_corriente)

lemma g_client_mqtt_app_start: "g_client (mqtt_app_start x s) = x"
  by (simp add: mqtt_app_start_def)

lemma published_mqtt_app_start: "published (mqtt_app_start x initial_state) = []"
  by (simp add: mqtt_app_start_def initial_state_def)

lemma scenario_12_34:
  assumes "g_client s = Some c"
  shows "published (read_serial
     \<lparr>uart_len = 24, uart_data = ''Current reading: 12.34 A'',
      env_cocina = \<lparr>now = 1717000000, msg_id = i\<rparr>, env_sala = e2, env_garage = e3\<rparr> s) =
     published s @
     [\<lparr>pub_client = c, pub_topic = ''casa/Cocina/corriente'',
       pub_data = ''{'' @ [CHR 0x22] @ ''ts'' @ [CHR 0x22] @ '':1717000000,'' @
         [CHR 0x22] @ ''I'' @ [CHR 0x22] @ '':12.34}'',
       pub_len = 0, pub_qos = 1, pub_retain = 0\<rparr>]"
proof -
  let ?inp = "\<lparr>uart_len = 24, uart_data = ''Current reading: 12.34 A'',
      env_cocina = \<lparr>now = 1717000000, msg_id = i\<rparr>, env_sala = e2, env_garage = e3\<rparr>"
  have p: "parse_current (rx_text ?inp) = Some (Finite False (3234857 / 262144))"
    by (simp add: rx_text_def c_str_def parse_12_34)
  show ?thesis
    by (subst published_read_serial_parsed [OF _ p assms])
      (simp_all add: request_def topic_Cocina payload_1717000000 fmt_12_34)
qed

section \<open>Properties kept by the loop\<close>

lemma qos1_request: "qos1_no_retain (request c fase v e)"
  by (simp add: qos1_no_retain_def request_def)

lemma qos1_publish_corriente:
  "list_all qos1_no_retain (published s) \<Longrightarrow>
     list_all qos1_no_retain (published (publish_corriente fase v e s))"
  by (simp add: published_publish_corriente qos1_request split: option.splits)

lemma qos1_read_serial:
  "list_all qos1_no_retain (published s) \<Longrightarrow> list_all qos1_no_retain (published (read_serial inp s))"
  by (simp add: read_serial_def Let_def qos1_publish_corriente)

lemma qos1_cycle:
  "list_all qos1_no_retain (published (snd gs)) \<Longrightarrow>
     list_all qos1_no_retain (published (snd (cycle L inp gs)))"
  by (cases gs)
    (simp add: snd_cycle published_publish_synthetic qos1_read_serial qos1_request
      split: option.splits)

lemma qos1_loop:
  "list_all qos1_no_retain (published (snd gs)) \<Longrightarrow>
     list_all qos1_no_retain (published (snd (foldl (\<lambda>gs inp. cycle L inp gs) gs inps)))"
proof (induction inps arbitrary: gs)
  case Nil
  then show ?case by simp
next
  case (Cons inp inps)
  from Cons.prems have "list_all qos1_no_retain (published (snd (cycle L inp gs)))"
    by (rule qos1_cycle)
  then show ?case using Cons.IH by simp
qed

section \<open>Two turns of a run seeded with 1\<close>

lemma round32_eqI:
  assumes "2 ^ (23 + k) \<le> m / denorm_min" and "m / denorm_min < 2 ^ (24 + k)"
    and "\<bar>m / denorm_min / 2 ^ k - of_int n\<bar> < 1 / 2"
    and "of_int (n * 2 ^ k) * denorm_min = v" and "v < 2 ^ 128"
  shows "round32 s m = Finite s v"
proof -
  have "round32_val m = v"
    using round32_val_eqI [OF assms(1-3)] assms(4) by simp
  with assms(5) show ?thesis by (simp add: round32_def)
qed

lemma lcg64_draws:
  "lib_rand lcg64 (lib_srand lcg64 1) = (1481765933, 6364136223846793006)"
  "lib_rand lcg64 6364136223846793006 = (1085377743, 13885033948157127959)"
  "lib_rand lcg64 13885033948157127959 = (1270216262, 14678909342070756876)"
  "lib_rand lcg64 14678909342070756876 = (1191391529, 14340359694176818205)"
  by (simp_all add: lcg64_def)

lemma float_of_int_rand_max: "float_of_int 2147483647 = Finite False 2147483648"
proof -
  have "round32 False 2147483647 = Finite False 2147483648"
    by (rule round32_eqI [where k = 156 and n = 16777216]) (simp_all add: denorm_min_def)
  then show ?thesis by (simp add: float_of_int_def)
qed

lemma sala_val_first: "sala_val 2147483647 1481765933 = Finite False (5641341 / 4194304)"
proof -
  have "round32 False 1481765933 = Finite False 1481765888"
    by (rule round32_eqI [where k = 156 and n = 11576296]) (simp_all add: denorm_min_def)
  then have a: "float_of_int 1481765933 = Finite False 1481765888"
    by (simp add: float_of_int_def)
  have c: "round32 False (1447037 / 2097152) = Finite False (1447037 / 2097152)"
    by (rule round32_eqI [where k = 125 and n = 11576296]) (simp_all add: denorm_min_def)
  have d: "round32 False (1447037 / 4194304) = Finite False (1447037 / 4194304)"
    by (rule round32_eqI [where k = 124 and n = 11576296]) (simp_all add: denorm_min_def)
  have e: "round32 False (5641341 / 4194304) = Finite False (5641341 / 4194304)"
    by (rule round32_eqI [where k = 126 and n = 11282682]) (simp_all add: denorm_min_def)
  show ?thesis
    by (simp add: sala_val_def float_of_int_rand_max a c d e float_lit_1 float_lit_half
        signed_def)
qed

lemma sala_val_third: "sala_val 2147483647 1270216262 = Finite False (10869499 / 8388608)"
proof -
  have "round32 False 1270216262 = Finite False 1270216320"
    by (rule round32_eqI [where k = 156 and n = 9923565]) (simp_all add: denorm_min_def)
  then have a: "float_of_int 1270216262 = Finite False 1270216320"
    by (simp add: float_of_int_def)
  have c: "round32 False (9923565 / 16777216) = Finite False (9923565 / 16777216)"
    by (rule round32_eqI [where k = 125 and n = 9923565]) (simp_all add: denorm_min_def)
  have d: "round32 False (9923565 / 33554432) = Finite False (9923565 / 33554432)"
    by (rule round32_eqI [where k = 124 and n = 9923565]) (simp_all add: denorm_min_def)
  have e: "round32 False (43477997 / 33554432) = Finite False (10869499 / 8388608)"
    by (rule round32_eqI [where k = 126 and n = 10869499]) (simp_all add: denorm_min_def)
  show ?thesis
    by (simp add: sala_val_def float_of_int_rand_max a c d e float_lit_1 float_lit_half
        signed_def)
qed

lemma fmt_sala_first: "fmt_2f (Finite False (5641341 / 4194304)) = ''1.35''"
proof -
  have "hundredths (5641341 / 4194304) = 135"
    by (rule hundredths_eqI) simp
  then show ?thesis
    by (simp add: fmt_2f_def dec_nat.simps digit_def)
qed

lemma fmt_sala_third: "fmt_2f (Finite False (10869499 / 8388608)) = ''1.30''"
proof -
  have "hundredths (10869499 / 8388608) = 130"
    by (rule hundredths_eqI) simp
  then show ?thesis
    by (simp add: fmt_2f_def dec_nat.simps digit_def)
qed

lemma fst_loop:
  "fst (foldl (\<lambda>gs inp. cycle L inp gs) gs inps) =
     ((\<lambda>g. snd (lib_rand L (snd (lib_rand L g)))) ^^ length inps) (fst gs)"
proof (induction inps arbitrary: gs)
  case Nil
  then show ?case by simp
next
  case (Cons inp inps)
  have step: "fst (cycle L inp gs) = snd (lib_rand L (snd (lib_rand L (fst gs))))"
    by (cases gs) (simp add: fst_cycle)
  show ?case
    by (simp only: foldl.simps Cons.IH step length_Cons funpow_Suc_right o_apply)
qed

lemma synthetic_requests:
  "drop (length (published (read_serial inp s))) (published (snd (cycle L inp (g, s)))) =
     (case g_client s of
        None \<Rightarrow> []
      | Some c \<Rightarrow>
          [request c ''Sala'' (sala_val (lib_RAND_MAX L) (fst (lib_rand L g))) (env_sala inp),
           request c ''Garage''
             (garage_val (lib_RAND_MAX L) (fst (lib_rand L (snd (lib_rand L g)))))
             (env_garage inp)])"
  by (simp add: snd_cycle published_publish_synthetic)

section \<open>Printing a value and reading it back\<close>

lemma position_digit: "k < 10 \<Longrightarrow> position (''0123456789'' ! k) ''0123456789'' = k"
proof -
  assume "k < 10"
  then have "k \<in> {0, 1, 2, 3, 4, 5, 6, 7, 8, 9}" by auto
  then show ?thesis by auto
qed

lemma position_digit_mod: "position (digit d) ''0123456789'' = d mod 10"
  unfolding digit_def by (rule position_digit) simp

lemma isdigit_digit: "isdigit (digit d)"
proof -
  have "d mod 10 < length ''0123456789''" by simp
  then have "''0123456789'' ! (d mod 10) \<in> set ''0123456789''" by (rule nth_mem)
  then show ?thesis by (simp only: isdigit_def digit_def)
qed

lemma dec_nat_digits: "list_all isdigit (dec_nat n)"
proof (induction n rule: dec_nat.induct)
  case (1 n)
  show ?case
  proof (cases "n < 10")
    case True
    then show ?thesis by (subst dec_nat.simps) (simp add: isdigit_digit)
  next
    case False
    with 1 show ?thesis by (subst dec_nat.simps) (simp add: isdigit_digit)
  qed
qed

lemma dec_nat_not_Nil: "dec_nat n \<noteq> []"
  by (subst dec_nat.simps) simp

lemma digits_value_snoc:
  "digits_value (ds @ [c]) = 10 * digits_value ds + position c ''0123456789''"
  by (simp add: digits_value_def del: position.simps)

lemma digits_value_Nil: "digits_value [] = 0"
  by (simp add: digits_value_def)

lemma digits_value_dec_nat: "digits_value (dec_nat n) = n"
proof (induction n rule: dec_nat.induct)
  case (1 n)
  show ?case
  proof (cases "n < 10")
    case True
    then have "dec_nat n = [] @ [digit n]" by (subst dec_nat.simps) simp
    then have "digits_value (dec_nat n) = n mod 10"
      by (simp only: digits_value_snoc digits_value_Nil position_digit_mod)
    with True show ?thesis by simp
  next
    case False
    with 1 have ih: "digits_value (dec_nat (n div 10)) = n div 10" by simp
    from False have "dec_nat n = dec_nat (n div 10) @ [digit n]" by (subst dec_nat.simps) simp
    then have "digits_value (dec_nat n) = 10 * (n div 10) + n mod 10"
      by (simp only: digits_value_snoc ih position_digit_mod)
    then show ?thesis by simp
  qed
qed

lemma digits_value_hundredths:
  "digits_value (dec_nat (h div 100) @ [digit (h div 10), digit h]) = h"
proof -
  have "dec_nat (h div 100) @ [digit (h div 10), digit h] =
      (dec_nat (h div 100) @ [digit (h div 10)]) @ [digit h]"
    by simp
  then have "digits_value (dec_nat (h div 100) @ [digit (h div 10), digit h]) =
      10 * (10 * (h div 100) + (h div 10) mod 10) + h mod 10"
    by (simp only: digits_value_snoc digits_value_dec_nat position_digit_mod)
  also have "\<dots> = h"
  proof -
    have "h div 100 = h div 10 div 10" by (simp add: div_mult2_eq)
    then have "10 * (h div 100) + (h div 10) mod 10 = h div 10" by simp
    then show ?thesis by simp
  qed
  finally show ?thesis .
qed

lemma isdigit_not_space: "isdigit c \<Longrightarrow> \<not> isspace c"
  by (auto simp: isdigit_def isspace_def)

lemma isdigit_not_letter: "isdigit c \<Longrightarrow> c \<notin> set ''iI'' \<and> c \<notin> set ''nN''"
  by (auto simp: isdigit_def)

lemma after_prefix_template:
  "after_prefix (''Current reading: '' @ rest) = Some (dropWhile isspace rest)"
  by (simp add: after_prefix_def after_lit_def isspace_def)

lemma scan_decimal_fixed2:
  assumes "ip \<noteq> []" and "list_all isdigit ip" and "isdigit d1" and "isdigit d2"
  shows "scan_decimal s (ip @ ''.'' @ [d1, d2] @ '' A'') =
     Some (round32 s (of_nat (digits_value (ip @ [d1, d2])) / 100), '' A'')"
proof -
  have all: "\<forall>x \<in> set ip. isdigit x" using assms(2) by (simp add: list_all_iff)
  have dot: "\<not> isdigit CHR ''.''" by (simp add: isdigit_def)
  have sp: "\<not> isdigit CHR '' ''" by (simp add: isdigit_def)
  have t1: "takeWhile isdigit (ip @ ''.'' @ [d1, d2] @ '' A'') = ip"
    using all dot by (simp add: takeWhile_append2)
  have d1: "dropWhile isdigit (ip @ ''.'' @ [d1, d2] @ '' A'') = ''.'' @ [d1, d2] @ '' A''"
    using all dot by (simp add: dropWhile_append2)
  have t2: "takeWhile isdigit ([d1, d2] @ '' A'') = [d1, d2]"
    using assms(3,4) sp by simp
  have d2: "dropWhile isdigit ([d1, d2] @ '' A'') = '' A''"
    using assms(3,4) sp by simp
  have ex: "scan_exponent '' A'' = (0, '' A'')"
    by (simp add: scan_exponent_def)
  show ?thesis
    unfolding scan_decimal_def t1 d1
    using assms(1) t2 d2 by (simp add: ex scale10_def)
qed

lemma round_half_even_cases:
  "round_half_even x = \<lfloor>x\<rfloor> \<and> x - of_int \<lfloor>x\<rfloor> \<le> 1 / 2 \<or>
   round_half_even x = \<lfloor>x\<rfloor> + 1 \<and> 1 / 2 \<le> x - of_int \<lfloor>x\<rfloor>"
  by (auto simp: round_half_even_def Let_def)

lemma round_half_even_nearest: "\<bar>x - of_int (round_half_even x)\<bar> \<le> \<bar>x - of_int j\<bar>"
proof -
  define f where "f = \<lfloor>x\<rfloor>"
  have f: "of_int f \<le> x" "x < of_int f + 1"
    using floor_correct [of x] by (simp_all add: f_def)
  have cases: "round_half_even x = f \<and> x - of_int f \<le> 1 / 2 \<or>
      round_half_even x = f + 1 \<and> 1 / 2 \<le> x - of_int f"
    unfolding f_def by (rule round_half_even_cases)
  have "j \<le> f \<or> f + 1 \<le> j" by linarith
  then show ?thesis
  proof
    assume "j \<le> f"
    then have "(of_int j :: rat) \<le> of_int f" by simp
    with f cases show ?thesis by (auto simp: abs_if)
  next
    assume "f + 1 \<le> j"
    then have "(of_int (f + 1) :: rat) \<le> of_int j" by (simp only: of_int_le_iff)
    then have "(of_int f :: rat) + 1 \<le> of_int j" by simp
    with f cases show ?thesis by (auto simp: abs_if)
  qed
qed

lemma round_half_even_half: "\<bar>x - of_int (round_half_even x)\<bar> \<le> 1 / 2"
proof -
  define f where "f = \<lfloor>x\<rfloor>"
  have f: "of_int f \<le> x" "x < of_int f + 1"
    using floor_correct [of x] by (simp_all add: f_def)
  have cases: "round_half_even x = f \<and> x - of_int f \<le> 1 / 2 \<or>
      round_half_even x = f + 1 \<and> 1 / 2 \<le> x - of_int f"
    unfolding f_def by (rule round_half_even_cases)
  with f show ?thesis by (auto simp: abs_if)
qed

lemma round32_val_nearest:
  assumes m: "round32_val m = m"
  shows "\<bar>round32_val x - x\<bar> \<le> \<bar>m - x\<bar>"
proof -
  define k where "k = shift_of x"
  define P :: rat where "P = 2 ^ k"
  define u where "u = denorm_min"
  define y where "y = x / u / P"
  define n where "n = significand x"
  have Ppos: "0 < P" by (simp add: P_def)
  have upos: "0 < u" by (simp add: u_def denorm_min_pos)
  have x: "x = y * (P * u)" using Ppos upos by (simp add: y_def)
  have r: "round32_val x = of_int n * (P * u)"
    by (simp add: round32_val_def n_def k_def P_def u_def)
  have near: "\<bar>y - of_int n\<bar> \<le> \<bar>y - of_int j\<bar>" for j
    unfolding n_def significand_def y_def P_def k_def u_def by (rule round_half_even_nearest)
  have key: "\<bar>round32_val x - x\<bar> \<le> \<bar>of_int j * (P * u) - x\<bar>" for j
  proof -
    have "\<bar>round32_val x - x\<bar> = \<bar>y - of_int n\<bar> * (P * u)"
    proof -
      have "round32_val x - x = (of_int n - y) * (P * u)"
        by (subst r, subst x) (simp add: algebra_simps)
      then have "\<bar>round32_val x - x\<bar> = \<bar>of_int n - y\<bar> * \<bar>P * u\<bar>"
        by (simp only: abs_mult)
      then show ?thesis using Ppos upos by (simp add: abs_minus_commute)
    qed
    moreover have "\<bar>of_int j * (P * u) - x\<bar> = \<bar>y - of_int j\<bar> * (P * u)"
    proof -
      have "of_int j * (P * u) - x = (of_int j - y) * (P * u)"
        by (subst x) (simp add: algebra_simps)
      then have "\<bar>of_int j * (P * u) - x\<bar> = \<bar>of_int j - y\<bar> * \<bar>P * u\<bar>"
        by (simp only: abs_mult)
      then show ?thesis using Ppos upos by (simp add: abs_minus_commute)
    qed
    moreover have "\<bar>y - of_int n\<bar> * (P * u) \<le> \<bar>y - of_int j\<bar> * (P * u)"
      using near [of j] Ppos upos by (intro mult_right_mono) simp_all
    ultimately show ?thesis by simp
  qed
  show ?thesis
  proof (cases "k \<le> shift_of m")
    case True
    define j where "j = significand m * 2 ^ (shift_of m - k)"
    have "(2::int) ^ shift_of m = 2 ^ (shift_of m - k) * 2 ^ k"
      using True by (simp add: power_add [symmetric])
    then have "significand m * 2 ^ shift_of m = j * 2 ^ k"
      by (simp add: j_def)
    then have "round32_val m = of_int (j * 2 ^ k) * u"
      by (simp only: round32_val_def u_def)
    then have "m = of_int j * (P * u)"
      using m by (simp add: P_def)
    with key [of j] show ?thesis by simp
  next
    case False
    then have lt: "shift_of m < k" by simp
    then have kpos: "0 < shift_of x" by (simp add: k_def)
    have "m / u < 2 ^ (24 + shift_of m)"
      unfolding u_def by (rule shift_of_upper)
    also have "(2::rat) ^ (24 + shift_of m) \<le> 2 ^ (23 + k)"
      using lt by (intro power_increasing) simp_all
    finally have "m / u < 2 ^ (23 + k)" .
    then have "m < 2 ^ (23 + k) * u"
      using upos by (simp add: pos_divide_less_eq)
    then have mB: "m \<le> of_int (2 ^ 23) * (P * u)"
      by (simp add: P_def power_add)
    have "2 ^ (23 + k) \<le> x / u"
      unfolding u_def k_def using kpos by (rule shift_of_lower)
    then have "2 ^ (23 + k) * u \<le> x"
      using upos by (simp add: pos_le_divide_eq)
    then have Bx: "of_int (2 ^ 23) * (P * u) \<le> x"
      by (simp add: P_def power_add)
    from mB Bx have "\<bar>of_int (2 ^ 23) * (P * u) - x\<bar> \<le> \<bar>m - x\<bar>"
      by simp
    with key [of "2 ^ 23"] show ?thesis by (rule order_trans)
  qed
qed

lemma round32_val_units: "\<exists>a::int. round32_val x = of_int a * denorm_min"
  unfolding round32_val_def by blast

lemma shift_of_2_24: "shift_of (2 ^ 24) = 150"
  by (rule shift_of_eqI) (simp_all add: denorm_min_def)

lemma representable_integer:
  assumes "round32_val m = m" and "2 ^ 24 \<le> m"
  shows "\<exists>i::int. m = of_int i"
proof -
  have "shift_of (2 ^ 24) \<le> shift_of m" using assms(2) by (rule shift_of_mono)
  then have k: "150 \<le> shift_of m" by (simp only: shift_of_2_24)
  define j where "j = shift_of m - 149"
  have "shift_of m = j + 149" using k by (simp add: j_def)
  then have "(2::int) ^ shift_of m = 2 ^ j * 2 ^ 149" by (simp add: power_add)
  then have "round32_val m = of_int (significand m * 2 ^ j * 2 ^ 149) * denorm_min"
    by (simp add: round32_val_def mult.assoc)
  also have "\<dots> = of_int (significand m * 2 ^ j)"
    by (simp add: denorm_min_def)
  finally show ?thesis using assms(1) by metis
qed

lemma representable_below_max:
  assumes "round32_val m = m" and "m < 2 ^ 128"
  shows "m + 1 / 100 < 2 ^ 128"
proof (cases "2 ^ 24 \<le> m")
  case True
  with assms(1) obtain i :: int where i: "m = of_int i" using representable_integer by blast
  with assms(2) have "(of_int i :: rat) < of_int (2 ^ 128)" by simp
  then have "i < 2 ^ 128" by (simp only: of_int_less_iff)
  then have "i + 1 \<le> 2 ^ 128" by simp
  then have "(of_int (i + 1) :: rat) \<le> of_int (2 ^ 128)" by (simp only: of_int_le_iff)
  then have "m + 1 \<le> 2 ^ 128" by (simp add: i)
  then show ?thesis by simp
next
  case False
  then have "m < 2 ^ 24" by simp
  then have "m + 1 / 100 < 2 ^ 24 + 1" by simp
  also have "\<dots> < (2::rat) ^ 128" by simp
  finally show ?thesis .
qed

lemma hundredths_near:
  assumes "0 \<le> m"
  shows "\<bar>m * 100 - of_nat (hundredths m)\<bar> \<le> 1 / 2"
proof -
  have "of_int 0 \<le> m * 100" using assms by simp
  then have "0 \<le> round_half_even (m * 100)" by (rule round_half_even_ge)
  then have "(of_nat (hundredths m) :: rat) = of_int (round_half_even (m * 100))"
    by (simp add: hundredths_def)
  then show ?thesis by (simp only: round_half_even_half)
qed

lemma no_dyadic_hundredth: "of_int c * denorm_min * 100 \<noteq> (1::rat)"
proof
  assume "of_int c * denorm_min * 100 = (1::rat)"
  then have "(of_int (c * 100) :: rat) = of_int (2 ^ 149)"
    by (simp add: denorm_min_def)
  then have "c * 100 = 2 ^ 149" by (simp only: of_int_eq_iff)
  then have "(2::int) ^ 149 mod 100 = 0" by (metis mod_mult_self2_is_0)
  then show False by simp
qed

lemma round_trip_value:
  assumes "0 \<le> m" and "round32_val m = m"
  defines "m' \<equiv> round32_val (of_nat (hundredths m) / 100)"
  shows "hundredths m' = hundredths m \<and> \<bar>m' - m\<bar> \<le> 1 / 100 \<and>
         \<bar>m' - of_nat (hundredths m) / 100\<bar> \<le> 1 / 200"
proof -
  define h where "h = hundredths m"
  define d :: rat where "d = of_nat h / 100"
  have A: "\<bar>m * 100 - of_nat h\<bar> \<le> 1 / 2"
    unfolding h_def using assms(1) by (rule hundredths_near)
  have e: "x * 100 - of_nat h = (x - d) * 100" for x :: rat
    by (simp add: d_def algebra_simps)
  have "\<bar>(x - d) * 100\<bar> = \<bar>x - d\<bar> * 100" for x :: rat
    by (subst abs_mult) simp
  then have scale: "\<bar>x * 100 - of_nat h\<bar> = \<bar>x - d\<bar> * 100" for x :: rat
    by (simp only: e)
  have md: "\<bar>m - d\<bar> \<le> 1 / 200"
    using A by (simp only: scale) simp
  have m': "m' = round32_val d" by (simp add: m'_def d_def h_def)
  have B: "\<bar>m' - d\<bar> \<le> \<bar>m - d\<bar>"
    unfolding m' using assms(2) by (rule round32_val_nearest)
  with md have m'd: "\<bar>m' - d\<bar> \<le> 1 / 200" by simp
  have close: "\<bar>m' - m\<bar> \<le> 1 / 100" using md m'd by (simp add: abs_if split: if_splits)
  have B100: "\<bar>m' * 100 - of_nat h\<bar> \<le> \<bar>m * 100 - of_nat h\<bar>"
    using B by (simp only: scale) simp
  have "hundredths m' = h"
  proof (cases "\<bar>m' * 100 - of_nat h\<bar> < 1 / 2")
    case True
    then show ?thesis by (rule hundredths_eqI)
  next
    case False
    with A B100 have e1: "\<bar>m' * 100 - of_nat h\<bar> = 1 / 2" and e2: "\<bar>m * 100 - of_nat h\<bar> = 1 / 2"
      by simp_all
    have "m' = m"
    proof (rule ccontr)
      assume ne: "m' \<noteq> m"
      from e1 e2 ne have "(m' - m) * 100 = 1 \<or> (m - m') * 100 = 1"
        by (auto simp: abs_if algebra_simps split: if_splits)
      moreover obtain a :: int where a: "m' = of_int a * denorm_min"
        unfolding m' using round32_val_units by blast
      moreover obtain b :: int where b: "m = of_int b * denorm_min"
        using round32_val_units [of m] assms(2) by auto
      ultimately have "of_int (a - b) * denorm_min * 100 = (1::rat) \<or>
          of_int (b - a) * denorm_min * 100 = (1::rat)"
        by (simp add: algebra_simps)
      then show False using no_dyadic_hundredth by blast
    qed
    then show ?thesis by (simp add: h_def)
  qed
  with close m'd show ?thesis by (simp add: h_def d_def)
qed

lemma isdigit_not_sign: "isdigit c \<Longrightarrow> c \<noteq> CHR ''-'' \<and> c \<noteq> CHR ''+''"
  by (auto simp: isdigit_def)

lemma scan_float_digits:
  assumes "isdigit c"
  shows "scan_float (c # cs) = scan_decimal False (c # cs)"
    and "scan_float (CHR ''-'' # c # cs) = scan_decimal True (c # cs)"
  using isdigit_not_sign [OF assms] isdigit_not_letter [OF assms]
  by (simp_all add: scan_float_def scan_sign_def)

lemma parse_serial_line:
  assumes "round32_val (of_nat (hundredths m) / 100) < 2 ^ 128"
  shows "parse_current (serial_line (Finite s m)) =
     Some (Finite s (round32_val (of_nat (hundredths m) / 100)))"
proof -
  define h where "h = hundredths m"
  define body where "body = dec_nat (h div 100) @ ''.'' @ [digit (h div 10), digit h] @ '' A''"
  obtain c cs where ccs: "dec_nat (h div 100) = c # cs"
    using dec_nat_not_Nil [of "h div 100"] by (cases "dec_nat (h div 100)") auto
  have c: "isdigit c"
    using dec_nat_digits [of "h div 100"] by (simp add: ccs)
  have body: "body = c # (cs @ ''.'' @ [digit (h div 10), digit h] @ '' A'')"
    by (simp add: body_def ccs)
  have dec: "scan_decimal s body =
      Some (round32 s (of_nat h / 100), '' A'')"
    unfolding body_def
    using scan_decimal_fixed2 [OF dec_nat_not_Nil dec_nat_digits isdigit_digit isdigit_digit,
        of s "h div 100" "h div 10" h]
    by (simp only: digits_value_hundredths)
  have r: "round32 s (of_nat h / 100) = Finite s (round32_val (of_nat h / 100))"
    using assms by (simp add: round32_def h_def)
  have line: "serial_line (Finite s m) = ''Current reading: '' @ (if s then ''-'' else '''') @ body"
    by (simp add: serial_line_def fmt_2f_def body_def h_def)
  have ns: "\<not> isspace c" using c by (rule isdigit_not_space)
  have nm: "\<not> isspace CHR ''-''" by (simp add: isspace_def)
  have "scan_float (dropWhile isspace ((if s then ''-'' else '''') @ body)) =
      Some (Finite s (round32_val (of_nat h / 100)), '' A'')"
  proof (cases s)
    case True
    have "scan_float (CHR ''-'' # body) = scan_decimal True body"
      unfolding body by (rule scan_float_digits(2) [OF c])
    with True dec r nm show ?thesis by simp
  next
    case False
    have "scan_float body = scan_decimal False body"
      unfolding body by (rule scan_float_digits(1) [OF c])
    moreover have "dropWhile isspace body = body"
      unfolding body using ns by simp
    ultimately show ?thesis using False dec r by simp
  qed
  then show ?thesis
    unfolding line parse_current_def after_prefix_template by (simp add: h_def)
qed

text \<open>Every value the rounding returns is a single-precision magnitude: rounding it again changes nothing.\<close>

lemma round32_val_idem: "round32_val (round32_val x) = round32_val x"
proof -
  define k where "k = shift_of x"
  define n where "n = significand x"
  define r where "r = round32_val x"
  have r: "r = of_int (n * 2 ^ k) * denorm_min"
    by (simp add: r_def round32_val_def n_def k_def)
  have ru: "r / denorm_min = of_int (n * 2 ^ k)"
    using denorm_min_pos by (simp add: r)
  have le: "n \<le> 2 ^ 24" unfolding n_def by (rule significand_le)
  show ?thesis
  proof (cases "n = 2 ^ 24")
    case True
    have v: "r / denorm_min = 2 ^ (24 + k)"
      by (simp add: ru True power_add)
    have "round32_val r = of_int (2 ^ 23 * 2 ^ (k + 1)) * denorm_min"
      by (rule round32_val_eqI) (simp_all add: v power_add)
    also have "\<dots> = r" by (simp add: r True)
    finally show ?thesis by (simp add: r_def)
  next
    case False
    with le have lt: "n < 2 ^ 24" by simp
    show ?thesis
    proof (cases "0 < k")
      case True
      then have ge: "2 ^ 23 \<le> n" unfolding n_def k_def by (rule significand_ge)
      have lo: "2 ^ (23 + k) \<le> r / denorm_min"
      proof -
        have "(2::int) ^ 23 * 2 ^ k \<le> n * 2 ^ k" using ge by (simp add: mult_right_mono)
        then have "(of_int (2 ^ 23 * 2 ^ k) :: rat) \<le> of_int (n * 2 ^ k)"
          by (simp only: of_int_le_iff)
        then show ?thesis by (simp add: ru power_add)
      qed
      have hi: "r / denorm_min < 2 ^ (24 + k)"
      proof -
        have "n * 2 ^ k < 2 ^ 24 * 2 ^ k" using lt by (simp add: mult_strict_right_mono)
        then have "(of_int (n * 2 ^ k) :: rat) < of_int (2 ^ 24 * 2 ^ k)"
          by (simp only: of_int_less_iff)
        then show ?thesis by (simp add: ru power_add)
      qed
      have "round32_val r = of_int (n * 2 ^ k) * denorm_min"
        using lo hi by (rule round32_val_eqI) (simp add: ru)
      then show ?thesis by (simp add: r r_def [symmetric])
    next
      case False
      then have k0: "k = 0" by simp
      have "(of_int n :: rat) < of_int (2 ^ 24)" using lt by (simp only: of_int_less_iff)
      then have hi: "r / denorm_min < 2 ^ 24" by (simp add: ru k0)
      have "round32_val r = of_int n * denorm_min"
        using hi by (rule round32_val_small_eqI) (simp add: ru k0)
      then show ?thesis by (simp add: r k0 r_def [symmetric])
    qed
  qed
qed

section \<open>The payload of a finite reading\<close>

lemma length_dec_nat: "0 < k \<Longrightarrow> n < 10 ^ k \<Longrightarrow> length (dec_nat n) \<le> k"
proof (induction k arbitrary: n)
  case 0
  then show ?case by simp
next
  case (Suc k)
  show ?case
  proof (cases "n < 10")
    case True
    then show ?thesis by (subst dec_nat.simps) simp
  next
    case False
    with Suc.prems have k: "0 < k" by (cases k) auto
    from Suc.prems have "n div 10 < 10 ^ k"
      by (simp add: less_mult_imp_div_less mult.commute)
    with k have "length (dec_nat (n div 10)) \<le> k" by (rule Suc.IH)
    with False show ?thesis by (subst dec_nat.simps) simp
  qed
qed

lemma length_fmt_lld: "length (fmt_lld (sint (ts :: 64 word))) \<le> 20"
proof -
  have lo: "- (2 ^ 63) \<le> sint ts" using sint_ge [of ts] by simp
  have hi: "sint ts < 2 ^ 63" using sint_lt [of ts] by simp
  show ?thesis
  proof (cases "sint ts < 0")
    case True
    with lo have "nat (- sint ts) < 10 ^ 19" by simp
    then have "length (dec_nat (nat (- sint ts))) \<le> 19" by (intro length_dec_nat) simp_all
    with True show ?thesis by (simp add: fmt_lld_def)
  next
    case False
    with hi have "nat (sint ts) < 10 ^ 19" by simp
    then have "length (dec_nat (nat (sint ts))) \<le> 19" by (intro length_dec_nat) simp_all
    with False show ?thesis by (simp add: fmt_lld_def)
  qed
qed

lemma length_fmt_2f:
  assumes "m < 2 ^ 128"
  shows "length (fmt_2f (Finite s m)) \<le> 43"
proof -
  have "m * 100 \<le> of_int (2 ^ 128 * 100)" using assms by simp
  then have "round_half_even (m * 100) \<le> 2 ^ 128 * 100" by (rule round_half_even_le)
  then have "hundredths m \<le> 2 ^ 128 * 100" by (simp add: hundredths_def)
  then have "hundredths m div 100 \<le> 2 ^ 128" by simp
  then have "hundredths m div 100 < 10 ^ 39" by simp
  then have "length (dec_nat (hundredths m div 100)) \<le> 39" by (intro length_dec_nat) simp_all
  then show ?thesis by (simp add: fmt_2f_def)
qed

lemma payload_finite:
  assumes "m < 2 ^ 128"
  shows "payload ts (Finite s m) =
     ''{'' @ [CHR 0x22] @ ''ts'' @ [CHR 0x22] @ '':'' @ fmt_lld (sint ts) @ '','' @
     [CHR 0x22] @ ''I'' @ [CHR 0x22] @ '':'' @ (if s then ''-'' else '''') @
     dec_nat (hundredths m div 100) @ ''.'' @
     [digit (hundredths m div 10), digit (hundredths m)] @ ''}''"
proof -
  let ?full = "''{'' @ [CHR 0x22] @ ''ts'' @ [CHR 0x22] @ '':'' @ fmt_lld (sint ts) @ '','' @
     [CHR 0x22] @ ''I'' @ [CHR 0x22] @ '':'' @ fmt_2f (Finite s m) @ ''}''"
  have "length ?full \<le> 127"
    using length_fmt_lld [of ts] length_fmt_2f [OF assms, of s] by simp
  then have "payload ts (Finite s m) = ?full"
    by (simp add: payload_def snprintf_def)
  then show ?thesis by (simp add: fmt_2f_def)
qed

lemma scan_float_Finite:
  assumes "scan_float t = Some (Finite s m, rest)"
  shows "m < 2 ^ 128"
proof -
  have fin: "round32 b q = Finite s m \<Longrightarrow> m < 2 ^ 128" for b q
    by (auto simp: round32_def split: if_splits)
  from assms show ?thesis
    by (auto simp: scan_float_def scan_decimal_def Let_def split: prod.splits if_splits dest: fin)
qed

lemma parse_current_Finite: "parse_current b = Some (Finite s m) \<Longrightarrow> m < 2 ^ 128"
  by (auto simp: parse_current_def split: option.splits dest: scan_float_Finite)

lemma finite_reading_payload:
  assumes "0 < uart_len inp" and "parse_current (rx_text inp) = Some (Finite s m)"
    and "g_client st = Some c"
  shows "published (read_serial inp st) =
     published st @
     [\<lparr>pub_client = c, pub_topic = ''casa/Cocina/corriente'',
       pub_data = ''{'' @ [CHR 0x22] @ ''ts'' @ [CHR 0x22] @ '':'' @
         fmt_lld (sint (now (env_cocina inp))) @ '','' @
         [CHR 0x22] @ ''I'' @ [CHR 0x22] @ '':'' @ (if s then ''-'' else '''') @
         dec_nat (hundredths m div 100) @ ''.'' @
         [digit (hundredths m div 10), digit (hundredths m)] @ ''}'',
       pub_len = 0, pub_qos = 1, pub_retain = 0\<rparr>]"
proof -
  have "m < 2 ^ 128" using assms(2) by (rule parse_current_Finite)
  then have p: "payload (now (env_cocina inp)) (Finite s m) =
      ''{'' @ [CHR 0x22] @ ''ts'' @ [CHR 0x22] @ '':'' @
         fmt_lld (sint (now (env_cocina inp))) @ '','' @
         [CHR 0x22] @ ''I'' @ [CHR 0x22] @ '':'' @ (if s then ''-'' else '''') @
         dec_nat (hundredths m div 100) @ ''.'' @
         [digit (hundredths m div 10), digit (hundredths m)] @ ''}''"
    by (rule payload_finite)
  show ?thesis
    unfolding published_read_serial_parsed [OF assms]
    by (simp only: request_def topic_Cocina p)
qed


lemma imatch_word:
  "(imatch [''iI'', ''nN'', ''fF''] r \<or> imatch [''nN'', ''aA'', ''nN''] r) =
   (case r of
      a # b # c # cs \<Rightarrow>
        a \<in> set ''iI'' \<and> b \<in> set ''nN'' \<and> c \<in> set ''fF'' \<or>
        a \<in> set ''nN'' \<and> b \<in> set ''aA'' \<and> c \<in> set ''nN''
    | _ \<Rightarrow> False)"
  by (simp split: list.splits)

lemma imatch_infinity: "imatch [''iI'', ''nN'', ''fF'', ''iI'', ''nN'', ''iI'', ''tT'', ''yY''] r \<Longrightarrow>
  imatch [''iI'', ''nN'', ''fF''] r"
proof -
  assume h: "imatch [''iI'', ''nN'', ''fF'', ''iI'', ''nN'', ''iI'', ''tT'', ''yY''] r"
  then obtain a r1 where r: "r = a # r1" by (cases r) simp_all
  with h obtain b r2 where r1: "r1 = b # r2" by (cases r1) simp_all
  with h r obtain c r3 where r2: "r2 = c # r3" by (cases r2) simp_all
  with h r r1 show ?thesis by simp
qed

lemma scan_decimal_None_iff:
  "(scan_decimal neg r = None) =
   (case r of
      [] \<Rightarrow> True
    | c # cs \<Rightarrow>
        \<not> (isdigit c \<or> (c = CHR ''.'' \<and> (case cs of [] \<Rightarrow> False | d # ds \<Rightarrow> isdigit d))))"
proof (cases r)
  case Nil
  then show ?thesis by (simp add: scan_decimal_def)
next
  case (Cons c cs)
  have dot: "\<not> isdigit CHR ''.''" by (simp add: isdigit_def)
  show ?thesis
  proof (cases "isdigit c")
    case True
    with Cons show ?thesis by (simp add: scan_decimal_def Let_def split: prod.splits)
  next
    case False
    with Cons dot show ?thesis
      by (cases cs) (auto simp: scan_decimal_def Let_def split: prod.splits)
  qed
qed

lemma scan_float_None_iff: "(scan_float t = None) = (\<not> begins_number t)"
proof -
  define r where "r = (case t of [] \<Rightarrow> [] | c # cs \<Rightarrow> if c = CHR ''-'' \<or> c = CHR ''+'' then cs else t)"
  have s: "snd (scan_sign t) = r"
    by (simp add: scan_sign_def r_def split: list.splits)
  have "(scan_float t = None) =
      (\<not> (imatch [''iI'', ''nN'', ''fF''] r \<or> imatch [''nN'', ''aA'', ''nN''] r) \<and>
       scan_decimal (fst (scan_sign t)) r = None)"
    using imatch_infinity [of r] s by (auto simp: scan_float_def split: prod.splits)
  also have "\<dots> = (\<not> begins_number t)"
    unfolding scan_decimal_None_iff imatch_word begins_number_def Let_def r_def [symmetric]
    by (cases r) auto
  finally show ?thesis .
qed

lemma scale10_power_int: "scale10 m e = of_nat m * power_int 10 e"
proof (cases "0 \<le> e")
  case True
  then show ?thesis by (simp only: scale10_def power_int_def if_True)
next
  case False
  have "(of_nat m :: rat) / 10 ^ nat (- e) = of_nat m * inverse 10 ^ nat (- e)"
    by (simp only: divide_inverse power_inverse)
  with False show ?thesis by (simp only: scale10_def power_int_def if_False)
qed

lemma takeWhile_digits:
  assumes "list_all isdigit ds" and "\<not> isdigit c"
  shows "takeWhile isdigit (ds @ c # r) = ds" and "dropWhile isdigit (ds @ c # r) = c # r"
proof -
  have all: "\<And>x. x \<in> set ds \<Longrightarrow> isdigit x" using assms(1) by (simp add: list_all_iff)
  show "takeWhile isdigit (ds @ c # r) = ds"
    using all assms(2) by (simp add: takeWhile_append2)
  show "dropWhile isdigit (ds @ c # r) = c # r"
    using all assms(2) by (simp add: dropWhile_append2)
qed

lemma digits_head:
  assumes "ds \<noteq> []" and "list_all isdigit ds"
  obtains c cs where "ds = c # cs" and "isdigit c"
  using assms by (cases ds) simp_all

lemma scan_sign_text:
  assumes "isdigit c \<or> c = CHR ''.''"
  shows "scan_sign (sign_str sg @ c # r) = (sg = Minus, c # r)"
proof -
  have "c \<noteq> CHR ''-'' \<and> c \<noteq> CHR ''+''"
    using assms by (auto simp: isdigit_def)
  then show ?thesis
    by (cases sg) (simp_all add: scan_sign_def)
qed

lemma exponent_tail_head:
  assumes "case ex of None \<Rightarrow> True | Some (e, sg, ds) \<Rightarrow> e \<in> set ''eE'' \<and> ds \<noteq> [] \<and> list_all isdigit ds"
  obtains c r where "exponent_text ex @ '' A'' = c # r" and "\<not> isdigit c" and "c \<noteq> CHR ''.''"
proof (cases ex)
  case None
  have "exponent_text ex @ '' A'' = CHR '' '' # ''A''" "\<not> isdigit CHR '' ''" "CHR '' '' \<noteq> CHR ''.''"
    using None by (simp_all add: exponent_text_def isdigit_def)
  then show ?thesis by (rule that)
next
  case (Some t)
  obtain e sg ds where t: "t = (e, sg, ds)" by (cases t)
  from assms Some t have e: "e \<in> set ''eE''" by simp
  have "exponent_text ex @ '' A'' = e # (sign_str sg @ ds @ '' A'')"
    using Some t by (simp add: exponent_text_def)
  moreover have "\<not> isdigit e" "e \<noteq> CHR ''.''"
    using e by (auto simp: isdigit_def)
  ultimately show ?thesis by (rule that)
qed

lemma scan_exponent_text:
  assumes "case ex of None \<Rightarrow> True | Some (e, sg, ds) \<Rightarrow> e \<in> set ''eE'' \<and> ds \<noteq> [] \<and> list_all isdigit ds"
  shows "scan_exponent (exponent_text ex @ '' A'') = (exponent_value ex, '' A'')"
proof (cases ex)
  case None
  then show ?thesis
    by (simp add: exponent_text_def exponent_value_def scan_exponent_def)
next
  case (Some t)
  obtain e sg ds where t: "t = (e, sg, ds)" by (cases t)
  from assms Some t have e: "e \<in> set ''eE''" and ne: "ds \<noteq> []" and all: "list_all isdigit ds"
    by simp_all
  from ne all obtain c cs where ds: "ds = c # cs" and c: "isdigit c" by (rule digits_head)
  have sp: "\<not> isdigit CHR '' ''" by (simp add: isdigit_def)
  have sg: "scan_sign (sign_str sg @ ds @ '' A'') = (sg = Minus, ds @ '' A'')"
    using scan_sign_text [of c sg "cs @ '' A''"] c by (simp add: ds)
  have tw: "takeWhile isdigit (ds @ '' A'') = ds" "dropWhile isdigit (ds @ '' A'') = '' A''"
    using takeWhile_digits [OF all sp, of "''A''"] by simp_all
  have "scan_exponent (e # sign_str sg @ ds @ '' A'') =
      (if sg = Minus then - int (digits_value ds) else int (digits_value ds), '' A'')"
    unfolding scan_exponent_def list.case sg prod.case tw
    using e ne by simp
  then show ?thesis
    using Some t by (simp add: exponent_text_def exponent_value_def)
qed

lemma scan_decimal_number:
  assumes "well_formed d"
  shows "scan_decimal neg (num_int d @ (if num_point d then ''.'' else []) @ num_frac d @
           exponent_text (num_exp d) @ '' A'') =
         Some (round32 neg (number_value d), '' A'')"
proof -
  define ip where "ip = num_int d"
  define fp where "fp = num_frac d"
  define ex where "ex = num_exp d"
  define X where "X = exponent_text ex @ '' A''"
  from assms have ipd: "list_all isdigit ip" and fpd: "list_all isdigit fp"
    and ne: "ip \<noteq> [] \<or> fp \<noteq> []" and pt: "fp = [] \<or> num_point d"
    and exd: "case ex of None \<Rightarrow> True | Some (e, sg, ds) \<Rightarrow> e \<in> set ''eE'' \<and> ds \<noteq> [] \<and> list_all isdigit ds"
    by (simp_all add: well_formed_def ip_def fp_def ex_def)
  from exd obtain c r where X: "X = c # r" and c: "\<not> isdigit c" and cd: "c \<noteq> CHR ''.''"
    unfolding X_def by (rule exponent_tail_head)
  have se: "scan_exponent X = (exponent_value ex, '' A'')"
    unfolding X_def using exd by (rule scan_exponent_text)
  have dot: "\<not> isdigit CHR ''.''" by (simp add: isdigit_def)
  have val: "scale10 (digits_value (ip @ fp)) (exponent_value ex - int (length fp)) = number_value d"
    by (simp add: scale10_power_int number_value_def ip_def fp_def ex_def)
  have "scan_decimal neg (ip @ (if num_point d then ''.'' else []) @ fp @ X) =
      Some (round32 neg (number_value d), '' A'')"
  proof (cases "num_point d")
    case True
    have 1: "takeWhile isdigit (ip @ CHR ''.'' # fp @ X) = ip"
        "dropWhile isdigit (ip @ CHR ''.'' # fp @ X) = CHR ''.'' # fp @ X"
      using takeWhile_digits [OF ipd dot] by simp_all
    have 2: "takeWhile isdigit (fp @ X) = fp" "dropWhile isdigit (fp @ X) = X"
      unfolding X using takeWhile_digits [OF fpd c] by simp_all
    show ?thesis
      using True ne
      by (simp add: scan_decimal_def Let_def 1 2 se val)
  next
    case False
    with pt have fp: "fp = []" by simp
    have 1: "takeWhile isdigit (ip @ X) = ip" "dropWhile isdigit (ip @ X) = X"
      unfolding X using takeWhile_digits [OF ipd c] by simp_all
    have hp: "(case X of [] \<Rightarrow> False | c # cs \<Rightarrow> c = CHR ''.'') = False"
      unfolding X using cd by simp
    show ?thesis
      using False ne val
      by (simp add: scan_decimal_def Let_def fp 1 hp se)
  qed
  then show ?thesis
    by (simp only: ip_def fp_def ex_def X_def)
qed

lemma parse_written_line:
  assumes "well_formed d"
  shows "parse_current (written_line d) = Some (round32 (num_sign d = Minus) (number_value d))"
proof -
  define body where "body = num_int d @ (if num_point d then ''.'' else []) @ num_frac d @
           exponent_text (num_exp d) @ '' A''"
  have dec: "scan_decimal (num_sign d = Minus) body =
      Some (round32 (num_sign d = Minus) (number_value d), '' A'')"
    unfolding body_def using assms by (rule scan_decimal_number)
  from assms have ipd: "list_all isdigit (num_int d)" and fpd: "list_all isdigit (num_frac d)"
    and ne: "num_int d \<noteq> [] \<or> num_frac d \<noteq> []" and pt: "num_frac d = [] \<or> num_point d"
    by (simp_all add: well_formed_def)
  obtain c r where body: "body = c # r" and c: "isdigit c \<or> c = CHR ''.''"
  proof (cases "num_int d")
    case Nil
    with ne pt have "num_point d" by auto
    with Nil have "body = CHR ''.'' # (num_frac d @ exponent_text (num_exp d) @ '' A'')"
      by (simp add: body_def)
    then show ?thesis using that by blast
  next
    case (Cons a as)
    with ipd have "isdigit a" by simp
    moreover from Cons have "body = a # (as @ (if num_point d then ''.'' else []) @ num_frac d @
           exponent_text (num_exp d) @ '' A'')"
      by (simp add: body_def)
    ultimately show ?thesis using that by blast
  qed
  have line: "written_line d = ''Current reading: '' @ (sign_str (num_sign d) @ body)"
    by (simp add: written_line_def number_text_def body_def)
  have nsp: "\<not> isspace c" "c \<notin> set ''iI''" "c \<notin> set ''nN''"
    using c by (auto simp: isdigit_def isspace_def)
  have dw: "dropWhile isspace (sign_str (num_sign d) @ body) = sign_str (num_sign d) @ body"
    unfolding body using nsp(1) by (cases "num_sign d") (simp_all add: isspace_def)
  have sg: "scan_sign (sign_str (num_sign d) @ body) = (num_sign d = Minus, body)"
    unfolding body using c by (rule scan_sign_text)
  have "scan_float (sign_str (num_sign d) @ body) = scan_decimal (num_sign d = Minus) body"
    unfolding scan_float_def sg prod.case
    unfolding body using nsp(2,3) by simp
  then show ?thesis
    unfolding line parse_current_def after_prefix_template dw
    by (simp add: dec)
qed

lemma shift_of_le:
  assumes "m < 2 ^ (24 + k) * denorm_min"
  shows "shift_of m \<le> k"
proof -
  from assms have "m / denorm_min < 2 ^ (24 + k)"
    using denorm_min_pos by (simp only: pos_divide_less_eq)
  then have "nat \<lfloor>m / denorm_min\<rfloor> < 2 ^ (24 + k)" by (simp only: scaled_less_iff)
  then have "floorlog 2 (nat \<lfloor>m / denorm_min\<rfloor>) \<le> 24 + k"
    by (rule floorlog_leI) simp_all
  then show ?thesis by (simp add: shift_of_def)
qed

lemma round32_val_error: "\<bar>round32_val x - x\<bar> \<le> 2 ^ shift_of x * denorm_min / 2"
proof -
  define P :: rat where "P = 2 ^ shift_of x * denorm_min"
  have P: "0 < P" using denorm_min_pos by (simp add: P_def)
  define y where "y = x / denorm_min / 2 ^ shift_of x"
  have y: "x = y * P" using denorm_min_pos by (simp add: y_def P_def)
  have r: "round32_val x = of_int (round_half_even y) * P"
    by (simp add: round32_val_def significand_def y_def P_def)
  have "round32_val x - x = (of_int (round_half_even y) - y) * P"
    by (simp only: r left_diff_distrib y [symmetric])
  then have "\<bar>round32_val x - x\<bar> = \<bar>of_int (round_half_even y) - y\<bar> * P"
    using P by (simp add: abs_mult)
  also have "\<dots> \<le> 1 / 2 * P"
    using round_half_even_half [of y] P by (intro mult_right_mono) (simp_all add: abs_minus_commute)
  finally show ?thesis by (simp add: P_def)
qed

lemma round32_val_2_17: "round32_val (2 ^ 17) = 2 ^ 17"
  using round32_val_eqI [of 143 "2 ^ 17" "2 ^ 23"] by (simp add: denorm_min_def)

lemma round32_close:
  assumes "x < 131072"
  shows "round32 s x = Finite s (round32_val x)" and "\<bar>round32_val x - x\<bar> \<le> 1 / 200"
proof -
  from assms have "round32_val x \<le> round32_val (2 ^ 17)"
    by (intro round32_val_mono) simp
  then have "round32_val x < 2 ^ 128"
    unfolding round32_val_2_17 by simp
  then show "round32 s x = Finite s (round32_val x)" by (simp add: round32_def)
  have "x < 2 ^ (24 + 142) * denorm_min"
    using assms by (simp add: denorm_min_def)
  then have k: "shift_of x \<le> 142" by (rule shift_of_le)
  have "(2::rat) ^ shift_of x \<le> 2 ^ 142"
    using k by (intro power_increasing) simp_all
  then have "(2::rat) ^ shift_of x * denorm_min / 2 \<le> 2 ^ 142 * denorm_min / 2"
    using denorm_min_pos by (simp add: mult_right_mono divide_right_mono)
  also have "\<dots> \<le> 1 / 200" by (simp add: denorm_min_def)
  finally have "(2::rat) ^ shift_of x * denorm_min / 2 \<le> 1 / 200" .
  with round32_val_error [of x] show "\<bar>round32_val x - x\<bar> \<le> 1 / 200"
    by (rule order_trans)
qed

lemma round32_1000000_03: "round32 s (100000003 / 100) = Finite s 1000000"
  by (rule round32_eqI [where k = 145 and n = 16000000]) (simp_all add: denorm_min_def)

lemma parse_1000000_03:
  "parse_current ''Current reading: 1000000.03 A'' = Some (Finite False 1000000)"
  by (simp add: scan_defs round32_1000000_03)

lemma fmt_1000000: "fmt_2f (Finite False 1000000) = ''1000000.00''"
proof -
  have "hundredths 1000000 = 100000000"
    by (rule hundredths_eqI) simp
  then show ?thesis
    by (simp add: fmt_2f_def dec_nat.simps digit_def)
qed

lemma fmt_1000000_03: "fmt_2f (Finite False (100000003 / 100)) = ''1000000.03''"
proof -
  have "hundredths (100000003 / 100) = 100000003"
    by (rule hundredths_eqI) simp
  then show ?thesis
    by (simp add: fmt_2f_def dec_nat.simps digit_def)
qed

lemma round32_15: "round32 s 15 = Finite s 15"
  by (rule round32_eqI [where k = 129 and n = 15728640]) (simp_all add: denorm_min_def)

lemma round32_quarter: "round32 s (1 / 4) = Finite s (1 / 4)"
  by (rule round32_eqI [where k = 124 and n = 8388608]) (simp_all add: denorm_min_def)

lemma parse_5abc: "parse_current ''Current reading: 5abc A'' = Some (Finite False 5)"
  by (simp add: scan_defs round32_5)

lemma published_cycle_null:
  "published (snd (cycle L inp (g, mqtt_app_start None initial_state))) = []"
proof -
  have "g_client (mqtt_app_start None initial_state) = None"
    by (rule g_client_mqtt_app_start)
  then have "read_serial inp (mqtt_app_start None initial_state) =
      add_log (if 0 < uart_len inp \<and> fst (sscanf (rx_text inp) ''Current reading: %f A'') = 1
               then I_corriente (fmt_2f (hd (snd (sscanf (rx_text inp) ''Current reading: %f A''))))
               else if 0 < uart_len inp then W_parse_failed (rx_text inp) else W_no_uart_data)
        (if 0 < uart_len inp \<and> fst (sscanf (rx_text inp) ''Current reading: %f A'') = 1
         then add_log W_client_not_initialised (mqtt_app_start None initial_state)
         else mqtt_app_start None initial_state)"
    by (simp add: read_serial_def Let_def publish_corriente_None add_log_def)
  then show ?thesis
    by (simp add: snd_cycle published_publish_synthetic published_mqtt_app_start
        g_client_mqtt_app_start)
qed

lemma parse_current_None_iff:
  "(parse_current b = None) =
   (after_prefix b = None \<or> (\<exists>t. after_prefix b = Some t \<and> \<not> begins_number t))"
  by (auto simp: parse_current_def scan_float_None_iff split: option.splits)

lemma serial_line_well_formed:
  "well_formed \<lparr>num_sign = if s then Minus else No_sign,
      num_int = dec_nat (hundredths m div 100), num_point = True,
      num_frac = [digit (hundredths m div 10), digit (hundredths m)], num_exp = None\<rparr> \<and>
   written_line \<lparr>num_sign = if s then Minus else No_sign,
      num_int = dec_nat (hundredths m div 100), num_point = True,
      num_frac = [digit (hundredths m div 10), digit (hundredths m)], num_exp = None\<rparr> =
     serial_line (Finite s m)"
  by (simp add: well_formed_def written_line_def number_text_def exponent_text_def
      serial_line_def fmt_2f_def dec_nat_digits dec_nat_not_Nil isdigit_digit)

lemma printed_line_round_trip:
  assumes "0 \<le> m" and "round32_val m = m" and "m < 2 ^ 128"
  shows "\<exists>m'. sscanf (serial_line (Finite s m)) ''Current reading: %f A'' = (1, [Finite s m']) \<and>
              m' = round32_val (of_nat (hundredths m) / 100) \<and>
              fmt_2f (Finite s m') = fmt_2f (Finite s m) \<and>
              \<bar>m' - m\<bar> \<le> 1 / 100"
proof -
  define m' where "m' = round32_val (of_nat (hundredths m) / 100)"
  from round_trip_value [OF assms(1,2)]
  have h: "hundredths m' = hundredths m" and close: "\<bar>m' - m\<bar> \<le> 1 / 100"
    by (simp_all add: m'_def)
  from close have "m' \<le> m + 1 / 100" by (simp add: abs_if split: if_splits)
  also have "\<dots> < 2 ^ 128" using assms(2,3) by (rule representable_below_max)
  finally have fin: "m' < 2 ^ 128" .
  then have "parse_current (serial_line (Finite s m)) = Some (Finite s m')"
    unfolding m'_def by (rule parse_serial_line)
  then have "sscanf (serial_line (Finite s m)) ''Current reading: %f A'' = (1, [Finite s m'])"
    by (rule sscanf_Some)
  moreover have "fmt_2f (Finite s m') = fmt_2f (Finite s m)"
    by (simp add: fmt_2f_def h)
  ultimately show ?thesis using close m'_def by blast
qed

lemma round32_val_nearest_all:
  "\<forall>r. round32_val r = r \<longrightarrow> \<bar>round32_val x - x\<bar> \<le> \<bar>r - x\<bar>"
  using round32_val_nearest by blast

section \<open>The claims\<close>

text \<open>
  C1, as the code has it. The only gate in \<open>publish_corriente\<close> is the client handle:
  a request is issued exactly when the handle is not NULL, whatever the state of the
  session, which the function never reads; with a NULL handle the attempt is dropped and
  logged, and the program keeps no queue of readings.
\<close>

theorem publish_gate_is_client_handle:
  "(g_client s = None \<longrightarrow>
      publish_corriente fase I_rms e s = s\<lparr>logged := logged s @ [W_client_not_initialised]\<rparr>) \<and>
   (g_client s \<noteq> None \<longrightarrow>
      length (published (publish_corriente fase I_rms e s)) = Suc (length (published s))) \<and>
   publish_corriente fase I_rms e (s\<lparr>session := x\<rparr>) =
     (publish_corriente fase I_rms e s)\<lparr>session := x\<rparr>"
  by (cases "g_client s") (simp_all add: publish_corriente_def)

theorem publish_gate_is_client_handle_witness:
  "g_client initial_state = None \<and>
   publish_corriente ''Sala'' (Finite False 1) \<lparr>now = 0, msg_id = 1\<rparr> initial_state =
     initial_state\<lparr>logged := logged initial_state @ [W_client_not_initialised]\<rparr> \<and>
   g_client (mqtt_app_start (Some 1) initial_state) \<noteq> None \<and>
   length (published (publish_corriente ''Sala'' (Finite False 1) \<lparr>now = 0, msg_id = 1\<rparr>
     (mqtt_app_start (Some 1) initial_state))) =
     Suc (length (published (mqtt_app_start (Some 1) initial_state)))"
  using publish_gate_is_client_handle
      [of initial_state "''Sala''" "Finite False 1" "\<lparr>now = 0, msg_id = 1\<rparr>" Connected]
    publish_gate_is_client_handle
      [of "mqtt_app_start (Some 1) initial_state" "''Sala''" "Finite False 1"
          "\<lparr>now = 0, msg_id = 1\<rparr>" Connected]
  by (simp add: initial_state_def mqtt_app_start_def)

text \<open>
  C1, as the claim states it, fails: after start-up the handle is set while the session is
  still connecting, and after a disconnect event the session is disconnected; in both
  states \<open>publish_corriente\<close> issues a request.
\<close>

theorem publish_while_not_connected:
  "session (mqtt_app_start (Some 1) initial_state) = Connecting \<and>
   length (published (publish_corriente ''Sala'' (Finite False 1) \<lparr>now = 0, msg_id = 1\<rparr>
     (mqtt_app_start (Some 1) initial_state))) = 1 \<and>
   session (deliver_event MQTT_EVENT_DISCONNECTED (mqtt_app_start (Some 1) initial_state)) =
     Disconnected \<and>
   published (publish_corriente ''Sala'' (Finite False 1) \<lparr>now = 0, msg_id = 1\<rparr>
     (deliver_event MQTT_EVENT_DISCONNECTED (mqtt_app_start (Some 1) initial_state))) =
     [\<lparr>pub_client = 1, pub_topic = ''casa/Sala/corriente'',
       pub_data = ''{'' @ [CHR 0x22] @ ''ts'' @ [CHR 0x22] @ '':0,'' @ [CHR 0x22] @ ''I'' @
         [CHR 0x22] @ '':1.00}'',
       pub_len = 0, pub_qos = 1, pub_retain = 0\<rparr>]"
  by (simp add: initial_state_def mqtt_app_start_def deliver_event_def mqtt_event_handler_def
      session_after_def publish_corriente_def topic_def payload_def snprintf_def c_str_def
      fmt_lld_def fmt_2f_def hundredths_def round_half_even_def dec_nat.simps digit_def)

text \<open>
  C2, as the code has it. The synthetic values come from the C library's global
  generator, which the program seeds once at start-up from the timer and nobody can
  supply from outside. A turn draws two numbers: Sala is computed from the first and
  Garage from the second, and the generator is left two draws further. So the synthetic
  requests of a turn are determined by the state of the generator when the turn starts:
  two turns that start from the same generator state issue the same synthetic requests,
  whatever the serial line, the session or the log were (given the same client handle
  and clock readings); and the state of the generator after any number of turns depends
  only on the seed.
\<close>

theorem synthetic_values_from_generator:
  "fst (cycle L inp (g, s)) = snd (lib_rand L (snd (lib_rand L g))) \<and>
   drop (length (published (read_serial inp s))) (published (snd (cycle L inp (g, s)))) =
     (case g_client s of
        None \<Rightarrow> []
      | Some c \<Rightarrow>
          [request c ''Sala'' (sala_val (lib_RAND_MAX L) (fst (lib_rand L g))) (env_sala inp),
           request c ''Garage''
             (garage_val (lib_RAND_MAX L) (fst (lib_rand L (snd (lib_rand L g)))))
             (env_garage inp)]) \<and>
   (g_client s = g_client s' \<and> env_sala inp = env_sala inp' \<and> env_garage inp = env_garage inp' \<longrightarrow>
      drop (length (published (read_serial inp s))) (published (snd (cycle L inp (g, s)))) =
      drop (length (published (read_serial inp' s'))) (published (snd (cycle L inp' (g, s'))))) \<and>
   fst (app_main L timer init_result inps) =
     ((\<lambda>g. snd (lib_rand L (snd (lib_rand L g)))) ^^ length inps) (lib_srand L (ucast timer))"
  by (auto simp add: fst_cycle synthetic_requests app_main_def fst_loop split: option.splits)


theorem synthetic_values_from_generator_witness:
  "drop (length (published (read_serial
       \<lparr>uart_len = 0, uart_data = [], env_cocina = \<lparr>now = 1717000000, msg_id = 1\<rparr>,
        env_sala = \<lparr>now = 1717000000, msg_id = 1\<rparr>,
        env_garage = \<lparr>now = 1717000001, msg_id = 2\<rparr>\<rparr>
       (mqtt_app_start (Some 1) initial_state))))
     (published (snd (cycle lcg64
       \<lparr>uart_len = 0, uart_data = [], env_cocina = \<lparr>now = 1717000000, msg_id = 1\<rparr>,
        env_sala = \<lparr>now = 1717000000, msg_id = 1\<rparr>,
        env_garage = \<lparr>now = 1717000001, msg_id = 2\<rparr>\<rparr>
       (1, mqtt_app_start (Some 1) initial_state)))) =
   drop (length (published (read_serial
       \<lparr>uart_len = 24, uart_data = ''Current reading: 12.34 A'',
        env_cocina = \<lparr>now = 1717000000, msg_id = 1\<rparr>,
        env_sala = \<lparr>now = 1717000000, msg_id = 1\<rparr>,
        env_garage = \<lparr>now = 1717000001, msg_id = 2\<rparr>\<rparr>
       (deliver_event MQTT_EVENT_CONNECTED (mqtt_app_start (Some 1) initial_state)))))
     (published (snd (cycle lcg64
       \<lparr>uart_len = 24, uart_data = ''Current reading: 12.34 A'',
        env_cocina = \<lparr>now = 1717000000, msg_id = 1\<rparr>,
        env_sala = \<lparr>now = 1717000000, msg_id = 1\<rparr>,
        env_garage = \<lparr>now = 1717000001, msg_id = 2\<rparr>\<rparr>
       (1, deliver_event MQTT_EVENT_CONNECTED (mqtt_app_start (Some 1) initial_state)))))"
proof -
  let ?idle = "\<lparr>uart_len = 0, uart_data = [], env_cocina = \<lparr>now = 1717000000, msg_id = 1\<rparr>,
        env_sala = \<lparr>now = 1717000000, msg_id = 1\<rparr>,
        env_garage = \<lparr>now = 1717000001, msg_id = 2\<rparr>\<rparr>"
  let ?line = "\<lparr>uart_len = 24, uart_data = ''Current reading: 12.34 A'',
        env_cocina = \<lparr>now = 1717000000, msg_id = 1\<rparr>,
        env_sala = \<lparr>now = 1717000000, msg_id = 1\<rparr>,
        env_garage = \<lparr>now = 1717000001, msg_id = 2\<rparr>\<rparr>"
  let ?s = "mqtt_app_start (Some 1) initial_state"
  let ?s' = "deliver_event MQTT_EVENT_CONNECTED (mqtt_app_start (Some 1) initial_state)"
  have h: "g_client ?s = g_client ?s' \<and> env_sala ?idle = env_sala ?line \<and>
      env_garage ?idle = env_garage ?line"
    by (simp add: deliver_event_def mqtt_event_handler_def mqtt_app_start_def)
  from synthetic_values_from_generator [of lcg64 ?idle 1 ?s ?s' ?line] h
  show ?thesis by blast
qed

text \<open>
  C2, as the claim states it, fails: in a run seeded with 1, two consecutive turns that
  read exactly the same inputs (no serial data, the same clock) publish different values
  for Sala, 1.35 and then 1.30, because the hidden generator has moved on.
\<close>

theorem consecutive_turns_publish_different_values:
  "pub_data (published (snd (cycle lcg64
       \<lparr>uart_len = 0, uart_data = [], env_cocina = \<lparr>now = 1717000000, msg_id = 1\<rparr>,
        env_sala = \<lparr>now = 1717000000, msg_id = 1\<rparr>,
        env_garage = \<lparr>now = 1717000000, msg_id = 1\<rparr>\<rparr>
       (lib_srand lcg64 1, mqtt_app_start (Some 1) initial_state))) ! 0) =
     ''{'' @ [CHR 0x22] @ ''ts'' @ [CHR 0x22] @ '':1717000000,'' @ [CHR 0x22] @ ''I'' @
       [CHR 0x22] @ '':1.35}'' \<and>
   pub_data (published (snd (cycle lcg64
       \<lparr>uart_len = 0, uart_data = [], env_cocina = \<lparr>now = 1717000000, msg_id = 1\<rparr>,
        env_sala = \<lparr>now = 1717000000, msg_id = 1\<rparr>,
        env_garage = \<lparr>now = 1717000000, msg_id = 1\<rparr>\<rparr>
       (cycle lcg64
         \<lparr>uart_len = 0, uart_data = [], env_cocina = \<lparr>now = 1717000000, msg_id = 1\<rparr>,
          env_sala = \<lparr>now = 1717000000, msg_id = 1\<rparr>,
          env_garage = \<lparr>now = 1717000000, msg_id = 1\<rparr>\<rparr>
         (lib_srand lcg64 1, mqtt_app_start (Some 1) initial_state)))) ! 2) =
     ''{'' @ [CHR 0x22] @ ''ts'' @ [CHR 0x22] @ '':1717000000,'' @ [CHR 0x22] @ ''I'' @
       [CHR 0x22] @ '':1.30}''"
proof -
  let ?inp = "\<lparr>uart_len = 0, uart_data = [], env_cocina = \<lparr>now = 1717000000, msg_id = 1\<rparr>,
        env_sala = \<lparr>now = 1717000000, msg_id = 1\<rparr>,
        env_garage = \<lparr>now = 1717000000, msg_id = 1\<rparr>\<rparr>"
  let ?s0 = "mqtt_app_start (Some 1) initial_state"
  have c1: "cycle lcg64 ?inp (lib_srand lcg64 1, ?s0) =
      (13885033948157127959,
       publish_synthetic 2147483647 1481765933 1085377743 ?inp (read_serial ?inp ?s0))"
    by (simp add: cycle_def lcg64_draws) (simp add: lcg64_def)
  have c2: "snd (cycle lcg64 ?inp (cycle lcg64 ?inp (lib_srand lcg64 1, ?s0))) =
      publish_synthetic 2147483647 1270216262 1191391529 ?inp
        (read_serial ?inp
          (publish_synthetic 2147483647 1481765933 1085377743 ?inp (read_serial ?inp ?s0)))"
    unfolding c1 by (simp add: cycle_def lcg64_draws) (simp add: lcg64_def)
  have p2: "published (snd (cycle lcg64 ?inp (cycle lcg64 ?inp (lib_srand lcg64 1, ?s0)))) ! 2 =
      request 1 ''Sala'' (sala_val 2147483647 1270216262) \<lparr>now = 1717000000, msg_id = 1\<rparr>"
    unfolding c2
    by (simp add: published_publish_synthetic read_serial_no_data published_mqtt_app_start
        g_client_mqtt_app_start)
  have p0: "published (snd (cycle lcg64 ?inp (lib_srand lcg64 1, ?s0))) ! 0 =
      request 1 ''Sala'' (sala_val 2147483647 1481765933) \<lparr>now = 1717000000, msg_id = 1\<rparr>"
    unfolding c1
    by (simp add: published_publish_synthetic read_serial_no_data published_mqtt_app_start
        g_client_mqtt_app_start)
  show ?thesis
    unfolding p0 p2
    by (simp add: request_def payload_1717000000 sala_val_first sala_val_third
        fmt_sala_first fmt_sala_third)
qed

text \<open>
  C3 at the inputs where it fails. A line such as \<open>Current reading: nan A\<close> or
  \<open>Current reading: 1e39 A\<close> is parsed successfully, as a NaN and as an overflow to
  infinity, and \<open>%.2f\<close> prints \<open>nan\<close> and \<open>inf\<close>: the text published for Cocina is then
  not a JSON object and carries no two-decimal number. For every parsed value that is
  finite the payload is the JSON text the claim describes, never cut short
  (\<open>finite_reading_payload\<close>), and for the line \<open>Current reading: 12.34 A\<close> it is
  the one the claim gives (\<open>scenario_12_34\<close>).
\<close>

theorem non_finite_reading_payload:
  "published (read_serial
     \<lparr>uart_len = 22, uart_data = ''Current reading: nan A'',
      env_cocina = \<lparr>now = 1717000000, msg_id = 1\<rparr>,
      env_sala = \<lparr>now = 1717000000, msg_id = 2\<rparr>,
      env_garage = \<lparr>now = 1717000000, msg_id = 3\<rparr>\<rparr>
     (mqtt_app_start (Some 1) initial_state)) =
     [\<lparr>pub_client = 1, pub_topic = ''casa/Cocina/corriente'',
       pub_data = ''{'' @ [CHR 0x22] @ ''ts'' @ [CHR 0x22] @ '':1717000000,'' @ [CHR 0x22] @
         ''I'' @ [CHR 0x22] @ '':nan}'',
       pub_len = 0, pub_qos = 1, pub_retain = 0\<rparr>] \<and>
   published (read_serial
     \<lparr>uart_len = 23, uart_data = ''Current reading: 1e39 A'',
      env_cocina = \<lparr>now = 1717000000, msg_id = 1\<rparr>,
      env_sala = \<lparr>now = 1717000000, msg_id = 2\<rparr>,
      env_garage = \<lparr>now = 1717000000, msg_id = 3\<rparr>\<rparr>
     (mqtt_app_start (Some 1) initial_state)) =
     [\<lparr>pub_client = 1, pub_topic = ''casa/Cocina/corriente'',
       pub_data = ''{'' @ [CHR 0x22] @ ''ts'' @ [CHR 0x22] @ '':1717000000,'' @ [CHR 0x22] @
         ''I'' @ [CHR 0x22] @ '':inf}'',
       pub_len = 0, pub_qos = 1, pub_retain = 0\<rparr>]"
proof -
  let ?nan = "\<lparr>uart_len = 22, uart_data = ''Current reading: nan A'',
      env_cocina = \<lparr>now = 1717000000, msg_id = 1\<rparr>,
      env_sala = \<lparr>now = 1717000000, msg_id = 2\<rparr>,
      env_garage = \<lparr>now = 1717000000, msg_id = 3\<rparr>\<rparr>"
  let ?big = "\<lparr>uart_len = 23, uart_data = ''Current reading: 1e39 A'',
      env_cocina = \<lparr>now = 1717000000, msg_id = 1\<rparr>,
      env_sala = \<lparr>now = 1717000000, msg_id = 2\<rparr>,
      env_garage = \<lparr>now = 1717000000, msg_id = 3\<rparr>\<rparr>"
  have g: "g_client (mqtt_app_start (Some 1) initial_state) = Some 1"
    by (rule g_client_mqtt_app_start)
  have pn: "parse_current (rx_text ?nan) = Some NaN"
    by (simp add: rx_text_def c_str_def parse_nan)
  have n: "published (read_serial ?nan (mqtt_app_start (Some 1) initial_state)) =
      [request 1 ''Cocina'' NaN \<lparr>now = 1717000000, msg_id = 1\<rparr>]"
    by (subst published_read_serial_parsed [OF _ pn g]) (simp_all add: published_mqtt_app_start)
  have pb: "parse_current (rx_text ?big) = Some (Infinity False)"
    by (simp add: rx_text_def c_str_def parse_1e39)
  have b: "published (read_serial ?big (mqtt_app_start (Some 1) initial_state)) =
      [request 1 ''Cocina'' (Infinity False) \<lparr>now = 1717000000, msg_id = 1\<rparr>]"
    by (subst published_read_serial_parsed [OF _ pb g]) (simp_all add: published_mqtt_app_start)
  show ?thesis
    unfolding n b by (simp add: request_def topic_Cocina payload_1717000000 fmt_2f_def)
qed

text \<open>
  C4. Every publish request the program issues, in any run of \<open>app_main\<close> (any library,
  any start-up timer value, whether or not the client was created, any inputs of the
  turns) and in any single call of \<open>publish_corriente\<close>, asks for QoS 1 and has the
  retain flag unset.
\<close>

theorem every_request_qos1_no_retain:
  "(\<forall>r \<in> set (published (snd (app_main L timer init_result inps))).
      pub_qos r = 1 \<and> pub_retain r = 0) \<and>
   (\<forall>r \<in> set (drop (length (published s)) (published (publish_corriente fase I_rms e s))).
      pub_qos r = 1 \<and> pub_retain r = 0)"
proof -
  have "list_all qos1_no_retain (published (snd (app_main L timer init_result inps)))"
    unfolding app_main_def by (rule qos1_loop) (simp add: published_mqtt_app_start)
  then have a: "\<forall>r \<in> set (published (snd (app_main L timer init_result inps))).
      pub_qos r = 1 \<and> pub_retain r = 0"
    by (simp add: list_all_iff qos1_no_retain_def)
  have b: "\<forall>r \<in> set (drop (length (published s)) (published (publish_corriente fase I_rms e s))).
      pub_qos r = 1 \<and> pub_retain r = 0"
    by (auto simp add: published_publish_corriente request_def split: option.splits)
  from a b show ?thesis by blast
qed

theorem every_request_qos1_no_retain_witness:
  "length (published (snd (app_main lcg64 1 (Some 1)
     [\<lparr>uart_len = 0, uart_data = [], env_cocina = \<lparr>now = 1717000000, msg_id = 1\<rparr>,
       env_sala = \<lparr>now = 1717000000, msg_id = 1\<rparr>,
       env_garage = \<lparr>now = 1717000001, msg_id = 2\<rparr>\<rparr>]))) = 2 \<and>
   map pub_qos (published (snd (app_main lcg64 1 (Some 1)
     [\<lparr>uart_len = 0, uart_data = [], env_cocina = \<lparr>now = 1717000000, msg_id = 1\<rparr>,
       env_sala = \<lparr>now = 1717000000, msg_id = 1\<rparr>,
       env_garage = \<lparr>now = 1717000001, msg_id = 2\<rparr>\<rparr>]))) = [1, 1] \<and>
   map pub_retain (published (snd (app_main lcg64 1 (Some 1)
     [\<lparr>uart_len = 0, uart_data = [], env_cocina = \<lparr>now = 1717000000, msg_id = 1\<rparr>,
       env_sala = \<lparr>now = 1717000000, msg_id = 1\<rparr>,
       env_garage = \<lparr>now = 1717000001, msg_id = 2\<rparr>\<rparr>]))) = [0, 0]"
proof -
  let ?inp = "\<lparr>uart_len = 0, uart_data = [], env_cocina = \<lparr>now = 1717000000, msg_id = 1\<rparr>,
       env_sala = \<lparr>now = 1717000000, msg_id = 1\<rparr>,
       env_garage = \<lparr>now = 1717000001, msg_id = 2\<rparr>\<rparr>"
  let ?run = "published (snd (app_main lcg64 1 (Some 1) [?inp]))"
  obtain a b where ab: "?run = [a, b]"
    by (simp add: app_main_def snd_cycle published_publish_synthetic read_serial_no_data
        published_mqtt_app_start g_client_mqtt_app_start)
  from every_request_qos1_no_retain [of lcg64 1 "Some 1" "[?inp]"]
  have "\<forall>r \<in> set ?run. pub_qos r = 1 \<and> pub_retain r = 0"
    by blast
  with ab show ?thesis by simp
qed

text \<open>
  C5, as the code has it. The parse fails for every text that is empty, or whose prefix
  does not match \<open>Current reading:\<close> when each blank of the template stands for any run
  of white space (also none), or whose value does not begin with a number: after an
  optional sign there is no digit, no point followed by a digit, and neither \<open>inf\<close> nor
  \<open>nan\<close>. Then \<open>sscanf\<close> converts nothing and stores nothing, and the turn issues no
  request for the serial channel and changes nothing but the log, which gains one
  warning. The turn then hands Sala and Garage to \<open>publish_corriente\<close> as always: with
  the client handle set, the requests issued in the turn are exactly those two, and with
  a NULL handle the turn issues no request at all.
\<close>

theorem malformed_input_cycle:
  assumes "rx_text inp = [] \<or> after_prefix (rx_text inp) = None \<or>
    (\<exists>t. after_prefix (rx_text inp) = Some t \<and> \<not> begins_number t)"
  shows "fst (sscanf (rx_text inp) ''Current reading: %f A'') \<noteq> 1 \<and>
         snd (sscanf (rx_text inp) ''Current reading: %f A'') = [] \<and>
         read_serial inp s =
           add_log (if 0 < uart_len inp then W_parse_failed (rx_text inp) else W_no_uart_data) s \<and>
         snd (cycle L inp (g, s)) =
           publish_synthetic (lib_RAND_MAX L) (fst (lib_rand L g))
             (fst (lib_rand L (snd (lib_rand L g)))) inp
             (add_log (if 0 < uart_len inp then W_parse_failed (rx_text inp) else W_no_uart_data) s) \<and>
         published (snd (cycle L inp (g, s))) =
           published s @
           (case g_client s of
              None \<Rightarrow> []
            | Some c \<Rightarrow>
                [request c ''Sala'' (sala_val (lib_RAND_MAX L) (fst (lib_rand L g))) (env_sala inp),
                 request c ''Garage''
                   (garage_val (lib_RAND_MAX L) (fst (lib_rand L (snd (lib_rand L g)))))
                   (env_garage inp)]) \<and>
         map pub_topic (drop (length (published s)) (published (snd (cycle L inp (g, s))))) =
           (case g_client s of
              None \<Rightarrow> []
            | Some c \<Rightarrow> [''casa/Sala/corriente'', ''casa/Garage/corriente''])"
proof -
  from assms have "rx_text inp = [] \<or> after_prefix (rx_text inp) = None \<or>
      (\<exists>t. after_prefix (rx_text inp) = Some t \<and> scan_float t = None)"
    by (simp only: scan_float_None_iff)
  then have p: "parse_current (rx_text inp) = None"
    by (rule parse_current_malformed)
  then have f: "fst (sscanf (rx_text inp) ''Current reading: %f A'') \<noteq> 1"
    by (simp add: sscanf_ok_iff)
  have e: "snd (sscanf (rx_text inp) ''Current reading: %f A'') = []"
    using sscanf_None [OF p] by simp
  have r: "read_serial inp s =
      add_log (if 0 < uart_len inp then W_parse_failed (rx_text inp) else W_no_uart_data) s"
    using p by (simp add: read_serial_failed read_serial_no_data)
  from f e r show ?thesis
    by (simp add: snd_cycle published_publish_synthetic request_def topic_Sala topic_Garage
        split: option.splits)
qed

theorem malformed_input_cycle_witness:
  "rx_text \<lparr>uart_len = 1, uart_data = [CHR 0x00],
      env_cocina = \<lparr>now = 1717000000, msg_id = 1\<rparr>,
      env_sala = \<lparr>now = 1717000000, msg_id = 1\<rparr>,
      env_garage = \<lparr>now = 1717000001, msg_id = 2\<rparr>\<rparr> = [] \<and>
   map pub_topic (published (snd (cycle lcg64
     \<lparr>uart_len = 1, uart_data = [CHR 0x00], env_cocina = \<lparr>now = 1717000000, msg_id = 1\<rparr>,
      env_sala = \<lparr>now = 1717000000, msg_id = 1\<rparr>,
      env_garage = \<lparr>now = 1717000001, msg_id = 2\<rparr>\<rparr>
     (1, mqtt_app_start (Some 1) initial_state)))) =
     [''casa/Sala/corriente'', ''casa/Garage/corriente''] \<and>
   after_prefix (rx_text \<lparr>uart_len = 7, uart_data = ''garbage'',
      env_cocina = \<lparr>now = 1717000000, msg_id = 1\<rparr>,
      env_sala = \<lparr>now = 1717000000, msg_id = 1\<rparr>,
      env_garage = \<lparr>now = 1717000001, msg_id = 2\<rparr>\<rparr>) = None \<and>
   map pub_topic (published (snd (cycle lcg64
     \<lparr>uart_len = 7, uart_data = ''garbage'', env_cocina = \<lparr>now = 1717000000, msg_id = 1\<rparr>,
      env_sala = \<lparr>now = 1717000000, msg_id = 1\<rparr>,
      env_garage = \<lparr>now = 1717000001, msg_id = 2\<rparr>\<rparr>
     (1, mqtt_app_start (Some 1) initial_state)))) =
     [''casa/Sala/corriente'', ''casa/Garage/corriente''] \<and>
   after_prefix (rx_text \<lparr>uart_len = 22, uart_data = ''Current reading: abc A'',
      env_cocina = \<lparr>now = 1717000000, msg_id = 1\<rparr>,
      env_sala = \<lparr>now = 1717000000, msg_id = 1\<rparr>,
      env_garage = \<lparr>now = 1717000001, msg_id = 2\<rparr>\<rparr>) = Some ''abc A'' \<and>
   \<not> begins_number ''abc A'' \<and>
   map pub_topic (published (snd (cycle lcg64
     \<lparr>uart_len = 22, uart_data = ''Current reading: abc A'',
      env_cocina = \<lparr>now = 1717000000, msg_id = 1\<rparr>,
      env_sala = \<lparr>now = 1717000000, msg_id = 1\<rparr>,
      env_garage = \<lparr>now = 1717000001, msg_id = 2\<rparr>\<rparr>
     (1, mqtt_app_start (Some 1) initial_state)))) =
     [''casa/Sala/corriente'', ''casa/Garage/corriente''] \<and>
   published (snd (cycle lcg64
     \<lparr>uart_len = 7, uart_data = ''garbage'', env_cocina = \<lparr>now = 1717000000, msg_id = 1\<rparr>,
      env_sala = \<lparr>now = 1717000000, msg_id = 1\<rparr>,
      env_garage = \<lparr>now = 1717000001, msg_id = 2\<rparr>\<rparr>
     (1, mqtt_app_start None initial_state))) = []"
proof -
  let ?e = "\<lparr>uart_len = 1, uart_data = [CHR 0x00],
      env_cocina = \<lparr>now = 1717000000, msg_id = 1\<rparr>,
      env_sala = \<lparr>now = 1717000000, msg_id = 1\<rparr>,
      env_garage = \<lparr>now = 1717000001, msg_id = 2\<rparr>\<rparr>"
  let ?g = "\<lparr>uart_len = 7, uart_data = ''garbage'',
      env_cocina = \<lparr>now = 1717000000, msg_id = 1\<rparr>,
      env_sala = \<lparr>now = 1717000000, msg_id = 1\<rparr>,
      env_garage = \<lparr>now = 1717000001, msg_id = 2\<rparr>\<rparr>"
  let ?a = "\<lparr>uart_len = 22, uart_data = ''Current reading: abc A'',
      env_cocina = \<lparr>now = 1717000000, msg_id = 1\<rparr>,
      env_sala = \<lparr>now = 1717000000, msg_id = 1\<rparr>,
      env_garage = \<lparr>now = 1717000001, msg_id = 2\<rparr>\<rparr>"
  let ?s = "mqtt_app_start (Some 1) initial_state"
  let ?n = "mqtt_app_start None initial_state"
  have s: "g_client ?s = Some 1" "published ?s = []"
    by (simp_all add: mqtt_app_start_def initial_state_def)
  have n: "g_client ?n = None" "published ?n = []"
    by (simp_all add: mqtt_app_start_def initial_state_def)
  have he: "rx_text ?e = []"
    by (simp add: rx_text_def c_str_def)
  have hg: "after_prefix (rx_text ?g) = None"
    by (simp add: rx_text_def c_str_def after_prefix_def after_lit_def)
  have ha: "after_prefix (rx_text ?a) = Some ''abc A''"
    by (simp add: rx_text_def c_str_def after_prefix_def after_lit_def isspace_def)
  have hb: "\<not> begins_number ''abc A''"
    by (simp add: begins_number_def isdigit_def)
  have 1: "rx_text ?e = [] \<or> after_prefix (rx_text ?e) = None \<or>
      (\<exists>t. after_prefix (rx_text ?e) = Some t \<and> \<not> begins_number t)"
    using he by blast
  have 2: "rx_text ?g = [] \<or> after_prefix (rx_text ?g) = None \<or>
      (\<exists>t. after_prefix (rx_text ?g) = Some t \<and> \<not> begins_number t)"
    using hg by blast
  have 3: "rx_text ?a = [] \<or> after_prefix (rx_text ?a) = None \<or>
      (\<exists>t. after_prefix (rx_text ?a) = Some t \<and> \<not> begins_number t)"
    using ha hb by blast
  from malformed_input_cycle [OF 1, of ?s lcg64 1]
  have c1: "map pub_topic (drop (length (published ?s)) (published (snd (cycle lcg64 ?e (1, ?s))))) =
      (case g_client ?s of None \<Rightarrow> [] | Some c \<Rightarrow> [''casa/Sala/corriente'', ''casa/Garage/corriente''])"
    by blast
  from malformed_input_cycle [OF 2, of ?s lcg64 1]
  have c2: "map pub_topic (drop (length (published ?s)) (published (snd (cycle lcg64 ?g (1, ?s))))) =
      (case g_client ?s of None \<Rightarrow> [] | Some c \<Rightarrow> [''casa/Sala/corriente'', ''casa/Garage/corriente''])"
    by blast
  from malformed_input_cycle [OF 3, of ?s lcg64 1]
  have c3: "map pub_topic (drop (length (published ?s)) (published (snd (cycle lcg64 ?a (1, ?s))))) =
      (case g_client ?s of None \<Rightarrow> [] | Some c \<Rightarrow> [''casa/Sala/corriente'', ''casa/Garage/corriente''])"
    by blast
  from malformed_input_cycle [OF 2, of ?n lcg64 1]
  have c4: "published (snd (cycle lcg64 ?g (1, ?n))) =
      published ?n @ (case g_client ?n of None \<Rightarrow> []
        | Some c \<Rightarrow>
            [request c ''Sala'' (sala_val (lib_RAND_MAX lcg64) (fst (lib_rand lcg64 1))) (env_sala ?g),
             request c ''Garage''
               (garage_val (lib_RAND_MAX lcg64) (fst (lib_rand lcg64 (snd (lib_rand lcg64 1)))))
               (env_garage ?g)])"
    by blast
  from c1 c2 c3 have "map pub_topic (published (snd (cycle lcg64 ?e (1, ?s)))) =
        [''casa/Sala/corriente'', ''casa/Garage/corriente'']"
      "map pub_topic (published (snd (cycle lcg64 ?g (1, ?s)))) =
        [''casa/Sala/corriente'', ''casa/Garage/corriente'']"
      "map pub_topic (published (snd (cycle lcg64 ?a (1, ?s)))) =
        [''casa/Sala/corriente'', ''casa/Garage/corriente'']"
    unfolding s by simp_all
  moreover from c4 have "published (snd (cycle lcg64 ?g (1, ?n))) = []"
    unfolding n by simp
  ultimately show ?thesis
    using he hg ha hb by blast
qed

text \<open>
  C5, as the claim states it, fails in three ways. A line whose prefix is not the
  template's (\<open>Currentreading:5 A\<close>, without the two blanks) is parsed as 5 and
  published for Cocina, because a blank in a \<open>sscanf\<close> format also matches no white space
  at all. A line whose value is not a number (\<open>5abc\<close>) is parsed as 5 and published as
  well, because \<open>%f\<close> converts the longest numeric start of the text and leaves the
  rest. And when the client handle is NULL, as after a failed \<open>esp_mqtt_client_init\<close>,
  a run whose turn reads the malformed line \<open>garbage\<close> publishes nothing, so the
  synthetic channels are not published either.
\<close>

theorem wrong_prefix_and_non_numeric_value_published:
  "take 17 ''Currentreading:5 A'' \<noteq> ''Current reading: '' \<and>
   sscanf ''Currentreading:5 A'' ''Current reading: %f A'' = (1, [Finite False 5]) \<and>
   published (read_serial
     \<lparr>uart_len = 18, uart_data = ''Currentreading:5 A'',
      env_cocina = \<lparr>now = 1717000000, msg_id = 1\<rparr>,
      env_sala = \<lparr>now = 1717000000, msg_id = 2\<rparr>,
      env_garage = \<lparr>now = 1717000000, msg_id = 3\<rparr>\<rparr>
     (mqtt_app_start (Some 1) initial_state)) =
     [\<lparr>pub_client = 1, pub_topic = ''casa/Cocina/corriente'',
       pub_data = ''{'' @ [CHR 0x22] @ ''ts'' @ [CHR 0x22] @ '':1717000000,'' @ [CHR 0x22] @
         ''I'' @ [CHR 0x22] @ '':5.00}'',
       pub_len = 0, pub_qos = 1, pub_retain = 0\<rparr>] \<and>
   sscanf ''Current reading: 5abc A'' ''Current reading: %f A'' = (1, [Finite False 5]) \<and>
   published (read_serial
     \<lparr>uart_len = 23, uart_data = ''Current reading: 5abc A'',
      env_cocina = \<lparr>now = 1717000000, msg_id = 1\<rparr>,
      env_sala = \<lparr>now = 1717000000, msg_id = 2\<rparr>,
      env_garage = \<lparr>now = 1717000000, msg_id = 3\<rparr>\<rparr>
     (mqtt_app_start (Some 1) initial_state)) =
     [\<lparr>pub_client = 1, pub_topic = ''casa/Cocina/corriente'',
       pub_data = ''{'' @ [CHR 0x22] @ ''ts'' @ [CHR 0x22] @ '':1717000000,'' @ [CHR 0x22] @
         ''I'' @ [CHR 0x22] @ '':5.00}'',
       pub_len = 0, pub_qos = 1, pub_retain = 0\<rparr>] \<and>
   parse_current ''garbage'' = None \<and>
   published (snd (app_main lcg64 1717000000 None
     [\<lparr>uart_len = 7, uart_data = ''garbage'',
       env_cocina = \<lparr>now = 1717000000, msg_id = 1\<rparr>,
       env_sala = \<lparr>now = 1717000000, msg_id = 2\<rparr>,
       env_garage = \<lparr>now = 1717000000, msg_id = 3\<rparr>\<rparr>])) = []"
proof -
  let ?inp = "\<lparr>uart_len = 18, uart_data = ''Currentreading:5 A'',
      env_cocina = \<lparr>now = 1717000000, msg_id = 1\<rparr>,
      env_sala = \<lparr>now = 1717000000, msg_id = 2\<rparr>,
      env_garage = \<lparr>now = 1717000000, msg_id = 3\<rparr>\<rparr>"
  let ?inq = "\<lparr>uart_len = 23, uart_data = ''Current reading: 5abc A'',
      env_cocina = \<lparr>now = 1717000000, msg_id = 1\<rparr>,
      env_sala = \<lparr>now = 1717000000, msg_id = 2\<rparr>,
      env_garage = \<lparr>now = 1717000000, msg_id = 3\<rparr>\<rparr>"
  let ?s = "mqtt_app_start (Some 1) initial_state"
  have s: "g_client ?s = Some 1" "published ?s = []"
    by (simp_all add: mqtt_app_start_def initial_state_def)
  have rx: "rx_text ?inp = ''Currentreading:5 A''"
    by (simp add: rx_text_def c_str_def)
  have rq: "rx_text ?inq = ''Current reading: 5abc A''"
    by (simp add: rx_text_def c_str_def)
  have p: "parse_current (rx_text ?inp) = Some (Finite False 5)"
    unfolding rx by (rule parse_squeezed)
  have q: "parse_current (rx_text ?inq) = Some (Finite False 5)"
    unfolding rq by (rule parse_5abc)
  have "published (read_serial ?inp ?s) =
      published ?s @ [request 1 ''Cocina'' (Finite False 5) (env_cocina ?inp)]"
    by (rule published_read_serial_parsed [OF _ p s(1)]) simp
  then have a: "published (read_serial ?inp ?s) =
      [request 1 ''Cocina'' (Finite False 5) \<lparr>now = 1717000000, msg_id = 1\<rparr>]"
    unfolding s by simp
  have "published (read_serial ?inq ?s) =
      published ?s @ [request 1 ''Cocina'' (Finite False 5) (env_cocina ?inq)]"
    by (rule published_read_serial_parsed [OF _ q s(1)]) simp
  then have b: "published (read_serial ?inq ?s) =
      [request 1 ''Cocina'' (Finite False 5) \<lparr>now = 1717000000, msg_id = 1\<rparr>]"
    unfolding s by simp
  have c: "sscanf ''Currentreading:5 A'' ''Current reading: %f A'' = (1, [Finite False 5])"
    by (rule sscanf_Some [OF parse_squeezed])
  have d: "sscanf ''Current reading: 5abc A'' ''Current reading: %f A'' = (1, [Finite False 5])"
    by (rule sscanf_Some [OF parse_5abc])
  have e: "published (snd (app_main lcg64 1717000000 None
     [\<lparr>uart_len = 7, uart_data = ''garbage'',
       env_cocina = \<lparr>now = 1717000000, msg_id = 1\<rparr>,
       env_sala = \<lparr>now = 1717000000, msg_id = 2\<rparr>,
       env_garage = \<lparr>now = 1717000000, msg_id = 3\<rparr>\<rparr>])) = []"
    unfolding app_main_def foldl.simps by (rule published_cycle_null)
  have r: "request 1 ''Cocina'' (Finite False 5) \<lparr>now = 1717000000, msg_id = 1\<rparr> =
      \<lparr>pub_client = 1, pub_topic = ''casa/Cocina/corriente'',
       pub_data = ''{'' @ [CHR 0x22] @ ''ts'' @ [CHR 0x22] @ '':1717000000,'' @ [CHR 0x22] @
         ''I'' @ [CHR 0x22] @ '':5.00}'',
       pub_len = 0, pub_qos = 1, pub_retain = 0\<rparr>"
    by (simp add: request_def topic_Cocina payload_1717000000 fmt_5)
  have t: "take 17 ''Currentreading:5 A'' \<noteq> ''Current reading: ''" by simp
  from a b c d e t show ?thesis
    unfolding r using parse_garbage by blast
qed

text \<open>
  C6, as the code has it. When the serial read returns zero bytes, the turn logs a warning
  and nothing else happens for the serial channel: no request is issued for it and the
  state is otherwise unchanged. The turn then goes on as always and hands Sala and Garage
  to \<open>publish_corriente\<close>: with the client handle set, the requests issued in the turn
  are exactly those two, in that order, and with a NULL handle the turn issues no request.
\<close>

theorem zero_bytes_cycle:
  assumes "uart_len inp = 0"
  shows "read_serial inp s = add_log W_no_uart_data s \<and>
         snd (cycle L inp (g, s)) =
           publish_synthetic (lib_RAND_MAX L) (fst (lib_rand L g))
             (fst (lib_rand L (snd (lib_rand L g)))) inp (add_log W_no_uart_data s) \<and>
         published (snd (cycle L inp (g, s))) =
           published s @
           (case g_client s of
              None \<Rightarrow> []
            | Some c \<Rightarrow>
                [request c ''Sala'' (sala_val (lib_RAND_MAX L) (fst (lib_rand L g))) (env_sala inp),
                 request c ''Garage''
                   (garage_val (lib_RAND_MAX L) (fst (lib_rand L (snd (lib_rand L g)))))
                   (env_garage inp)]) \<and>
         map pub_topic (drop (length (published s)) (published (snd (cycle L inp (g, s))))) =
           (case g_client s of
              None \<Rightarrow> []
            | Some c \<Rightarrow> [''casa/Sala/corriente'', ''casa/Garage/corriente''])"
proof -
  from assms have r: "read_serial inp s = add_log W_no_uart_data s"
    by (simp add: read_serial_no_data)
  then show ?thesis
    by (simp add: snd_cycle published_publish_synthetic request_def topic_Sala topic_Garage
        split: option.splits)
qed

theorem zero_bytes_cycle_witness:
  "uart_len \<lparr>uart_len = 0, uart_data = [], env_cocina = \<lparr>now = 1717000000, msg_id = 1\<rparr>,
      env_sala = \<lparr>now = 1717000000, msg_id = 1\<rparr>,
      env_garage = \<lparr>now = 1717000001, msg_id = 2\<rparr>\<rparr> = 0 \<and>
   map pub_topic (published (snd (cycle lcg64
     \<lparr>uart_len = 0, uart_data = [], env_cocina = \<lparr>now = 1717000000, msg_id = 1\<rparr>,
      env_sala = \<lparr>now = 1717000000, msg_id = 1\<rparr>,
      env_garage = \<lparr>now = 1717000001, msg_id = 2\<rparr>\<rparr>
     (1, mqtt_app_start (Some 1) initial_state)))) =
     [''casa/Sala/corriente'', ''casa/Garage/corriente''] \<and>
   map pub_topic (published (snd (cycle lcg64
     \<lparr>uart_len = 0, uart_data = [], env_cocina = \<lparr>now = 1717000000, msg_id = 1\<rparr>,
      env_sala = \<lparr>now = 1717000000, msg_id = 1\<rparr>,
      env_garage = \<lparr>now = 1717000001, msg_id = 2\<rparr>\<rparr>
     (1, mqtt_app_start None initial_state)))) = []"
proof -
  let ?inp = "\<lparr>uart_len = 0, uart_data = [], env_cocina = \<lparr>now = 1717000000, msg_id = 1\<rparr>,
      env_sala = \<lparr>now = 1717000000, msg_id = 1\<rparr>,
      env_garage = \<lparr>now = 1717000001, msg_id = 2\<rparr>\<rparr>"
  let ?s = "mqtt_app_start (Some 1) initial_state"
  let ?n = "mqtt_app_start None initial_state"
  have s: "g_client ?s = Some 1" "published ?s = []"
    by (simp_all add: mqtt_app_start_def initial_state_def)
  have n: "g_client ?n = None" "published ?n = []"
    by (simp_all add: mqtt_app_start_def initial_state_def)
  have h: "uart_len ?inp = 0" by simp
  from zero_bytes_cycle [OF h, of ?s lcg64 1]
  have "map pub_topic (drop (length (published ?s)) (published (snd (cycle lcg64 ?inp (1, ?s))))) =
      (case g_client ?s of None \<Rightarrow> [] | Some c \<Rightarrow> [''casa/Sala/corriente'', ''casa/Garage/corriente''])"
    by blast
  then have a: "map pub_topic (published (snd (cycle lcg64 ?inp (1, ?s)))) =
      [''casa/Sala/corriente'', ''casa/Garage/corriente'']"
    unfolding s by simp
  from zero_bytes_cycle [OF h, of ?n lcg64 1]
  have "map pub_topic (drop (length (published ?n)) (published (snd (cycle lcg64 ?inp (1, ?n))))) =
      (case g_client ?n of None \<Rightarrow> [] | Some c \<Rightarrow> [''casa/Sala/corriente'', ''casa/Garage/corriente''])"
    by blast
  then have b: "map pub_topic (published (snd (cycle lcg64 ?inp (1, ?n)))) = []"
    unfolding n by simp
  from a b h show ?thesis by blast
qed

text \<open>
  C6, as the claim states it, fails when the client handle is NULL, as it is after a
  failed \<open>esp_mqtt_client_init\<close>, whose result \<open>mqtt_app_start\<close> does not test: a turn
  whose serial read returns zero bytes then publishes nothing, Sala and Garage included.
\<close>

theorem zero_bytes_null_handle_nothing_published:
  "uart_len \<lparr>uart_len = 0, uart_data = [], env_cocina = \<lparr>now = 1717000000, msg_id = 1\<rparr>,
      env_sala = \<lparr>now = 1717000000, msg_id = 2\<rparr>,
      env_garage = \<lparr>now = 1717000000, msg_id = 3\<rparr>\<rparr> = 0 \<and>
   g_client (mqtt_app_start None initial_state) = None \<and>
   published (snd (cycle lcg64
     \<lparr>uart_len = 0, uart_data = [], env_cocina = \<lparr>now = 1717000000, msg_id = 1\<rparr>,
      env_sala = \<lparr>now = 1717000000, msg_id = 2\<rparr>,
      env_garage = \<lparr>now = 1717000000, msg_id = 3\<rparr>\<rparr>
     (1, mqtt_app_start None initial_state))) = [] \<and>
   published (snd (app_main lcg64 1717000000 None
     [\<lparr>uart_len = 0, uart_data = [], env_cocina = \<lparr>now = 1717000000, msg_id = 1\<rparr>,
       env_sala = \<lparr>now = 1717000000, msg_id = 2\<rparr>,
       env_garage = \<lparr>now = 1717000000, msg_id = 3\<rparr>\<rparr>])) = []"
proof -
  have "published (snd (app_main lcg64 1717000000 None
     [\<lparr>uart_len = 0, uart_data = [], env_cocina = \<lparr>now = 1717000000, msg_id = 1\<rparr>,
       env_sala = \<lparr>now = 1717000000, msg_id = 2\<rparr>,
       env_garage = \<lparr>now = 1717000000, msg_id = 3\<rparr>\<rparr>])) = []"
    unfolding app_main_def foldl.simps by (rule published_cycle_null)
  then show ?thesis
    using published_cycle_null [of lcg64 _ 1] by (simp add: g_client_mqtt_app_start)
qed

text \<open>
  C7, as the code has it. From every well-formed line, the template with a decimal number
  in it (an optional sign, digits with an optional point, an optional exponent),
  \<open>sscanf\<close> converts one value: the number written, rounded to single precision. No
  single-precision value is nearer to the number written than the rounded one; it is an
  infinity if the rounding reaches \<open>2^128\<close>, and if the number written is below 131072
  it is finite and within 0.005 of it. Printing a finite single-precision value with two
  decimals into the template gives a well-formed line, and parsing that line gives a
  value that prints with the same two decimals and differs from the original by at most
  0.01. The conversions are those of ISO C on IEEE 754 numbers: \<open>%.2f\<close> rounds the
  exact binary value to two decimals and \<open>%f\<close> rounds the decimal to the nearest
  single-precision value. A single-precision magnitude is a number the rounding leaves
  unchanged, as every number it returns is (\<open>round32_val_idem\<close>).
\<close>

theorem well_formed_line_parsed:
  "(well_formed d \<longrightarrow>
      sscanf (written_line d) ''Current reading: %f A'' =
        (1, [round32 (num_sign d = Minus) (number_value d)]) \<and>
      (\<forall>r. round32_val r = r \<longrightarrow>
         \<bar>round32_val (number_value d) - number_value d\<bar> \<le> \<bar>r - number_value d\<bar>) \<and>
      (number_value d < 131072 \<longrightarrow>
         round32 (num_sign d = Minus) (number_value d) =
           Finite (num_sign d = Minus) (round32_val (number_value d)) \<and>
         \<bar>round32_val (number_value d) - number_value d\<bar> \<le> 1 / 200)) \<and>
   (0 \<le> m \<and> round32_val m = m \<and> m < 2 ^ 128 \<longrightarrow>
      (\<exists>d. well_formed d \<and> written_line d = serial_line (Finite s m)) \<and>
      (\<exists>m'. sscanf (serial_line (Finite s m)) ''Current reading: %f A'' = (1, [Finite s m']) \<and>
            m' = round32_val (of_nat (hundredths m) / 100) \<and>
            fmt_2f (Finite s m') = fmt_2f (Finite s m) \<and>
            \<bar>m' - m\<bar> \<le> 1 / 100))"
proof (intro conjI impI)
  assume "well_formed d"
  then have "parse_current (written_line d) = Some (round32 (num_sign d = Minus) (number_value d))"
    by (rule parse_written_line)
  then show "sscanf (written_line d) ''Current reading: %f A'' =
      (1, [round32 (num_sign d = Minus) (number_value d)])"
    by (rule sscanf_Some)
next
  show "\<forall>r. round32_val r = r \<longrightarrow>
      \<bar>round32_val (number_value d) - number_value d\<bar> \<le> \<bar>r - number_value d\<bar>"
    by (rule round32_val_nearest_all)
next
  assume "number_value d < 131072"
  then show "round32 (num_sign d = Minus) (number_value d) =
      Finite (num_sign d = Minus) (round32_val (number_value d))"
    by (rule round32_close(1))
next
  assume "number_value d < 131072"
  then show "\<bar>round32_val (number_value d) - number_value d\<bar> \<le> 1 / 200"
    by (rule round32_close(2))
next
  show "\<exists>d. well_formed d \<and> written_line d = serial_line (Finite s m)"
    using serial_line_well_formed by blast
next
  assume "0 \<le> m \<and> round32_val m = m \<and> m < 2 ^ 128"
  then show "\<exists>m'. sscanf (serial_line (Finite s m)) ''Current reading: %f A'' = (1, [Finite s m']) \<and>
      m' = round32_val (of_nat (hundredths m) / 100) \<and>
      fmt_2f (Finite s m') = fmt_2f (Finite s m) \<and> \<bar>m' - m\<bar> \<le> 1 / 100"
    using printed_line_round_trip [of m s] by blast
qed

theorem well_formed_line_parsed_witness:
  "well_formed \<lparr>num_sign = No_sign, num_int = ''1'', num_point = True, num_frac = ''5'',
      num_exp = Some (CHR ''e'', No_sign, ''1'')\<rparr> \<and>
   written_line \<lparr>num_sign = No_sign, num_int = ''1'', num_point = True, num_frac = ''5'',
      num_exp = Some (CHR ''e'', No_sign, ''1'')\<rparr> = ''Current reading: 1.5e1 A'' \<and>
   number_value \<lparr>num_sign = No_sign, num_int = ''1'', num_point = True, num_frac = ''5'',
      num_exp = Some (CHR ''e'', No_sign, ''1'')\<rparr> = 15 \<and>
   (15 :: rat) < 131072 \<and>
   sscanf ''Current reading: 1.5e1 A'' ''Current reading: %f A'' = (1, [Finite False 15]) \<and>
   well_formed \<lparr>num_sign = Minus, num_int = ''2'', num_point = True, num_frac = ''5'',
      num_exp = Some (CHR ''E'', Minus, ''1'')\<rparr> \<and>
   written_line \<lparr>num_sign = Minus, num_int = ''2'', num_point = True, num_frac = ''5'',
      num_exp = Some (CHR ''E'', Minus, ''1'')\<rparr> = ''Current reading: -2.5E-1 A'' \<and>
   number_value \<lparr>num_sign = Minus, num_int = ''2'', num_point = True, num_frac = ''5'',
      num_exp = Some (CHR ''E'', Minus, ''1'')\<rparr> = 1 / 4 \<and>
   sscanf ''Current reading: -2.5E-1 A'' ''Current reading: %f A'' = (1, [Finite True (1 / 4)]) \<and>
   (0::rat) \<le> 3234857 / 262144 \<and> round32_val (3234857 / 262144) = 3234857 / 262144 \<and>
   (3234857 / 262144 :: rat) < 2 ^ 128 \<and>
   serial_line (Finite False (3234857 / 262144)) = ''Current reading: 12.34 A'' \<and>
   (\<exists>m'. sscanf ''Current reading: 12.34 A'' ''Current reading: %f A'' = (1, [Finite False m']) \<and>
      fmt_2f (Finite False m') = ''12.34'' \<and> \<bar>m' - 3234857 / 262144\<bar> \<le> 1 / 100)"
proof -
  let ?d1 = "\<lparr>num_sign = No_sign, num_int = ''1'', num_point = True, num_frac = ''5'',
      num_exp = Some (CHR ''e'', No_sign, ''1'')\<rparr>"
  let ?d2 = "\<lparr>num_sign = Minus, num_int = ''2'', num_point = True, num_frac = ''5'',
      num_exp = Some (CHR ''E'', Minus, ''1'')\<rparr>"
  let ?m = "3234857 / 262144 :: rat"
  have w1: "well_formed ?d1" and w2: "well_formed ?d2"
    by (simp_all add: well_formed_def isdigit_def)
  have l1: "written_line ?d1 = ''Current reading: 1.5e1 A''"
    and l2: "written_line ?d2 = ''Current reading: -2.5E-1 A''"
    by (simp_all add: written_line_def number_text_def exponent_text_def)
  have v1: "number_value ?d1 = 15" and v2: "number_value ?d2 = 1 / 4"
    by (simp_all add: number_value_def exponent_value_def digits_value_def power_int_def power2_eq_square)
  have rep: "round32_val ?m = ?m"
    using round32_val_eqI [of 129 ?m 12939428] by (simp add: denorm_min_def)
  have line: "serial_line (Finite False ?m) = ''Current reading: 12.34 A''"
    by (simp add: serial_line_def fmt_12_34)
  have m: "0 \<le> ?m \<and> round32_val ?m = ?m \<and> ?m < 2 ^ 128"
    using rep by simp
  from well_formed_line_parsed [of ?d1 ?m False] w1 m
  have a: "sscanf (written_line ?d1) ''Current reading: %f A'' =
      (1, [round32 (num_sign ?d1 = Minus) (number_value ?d1)])"
    and c: "\<exists>m'. sscanf (serial_line (Finite False ?m)) ''Current reading: %f A'' =
        (1, [Finite False m']) \<and>
      m' = round32_val (of_nat (hundredths ?m) / 100) \<and>
      fmt_2f (Finite False m') = fmt_2f (Finite False ?m) \<and> \<bar>m' - ?m\<bar> \<le> 1 / 100"
    by blast+
  from well_formed_line_parsed [of ?d2 ?m False] w2
  have b: "sscanf (written_line ?d2) ''Current reading: %f A'' =
      (1, [round32 (num_sign ?d2 = Minus) (number_value ?d2)])"
    by blast
  from a have a': "sscanf ''Current reading: 1.5e1 A'' ''Current reading: %f A'' =
      (1, [Finite False 15])"
    unfolding l1 v1 by (simp add: round32_15)
  from b have b': "sscanf ''Current reading: -2.5E-1 A'' ''Current reading: %f A'' =
      (1, [Finite True (1 / 4)])"
    unfolding l2 v2 by (simp add: round32_quarter)
  from c have c': "\<exists>m'. sscanf ''Current reading: 12.34 A'' ''Current reading: %f A'' =
        (1, [Finite False m']) \<and>
      fmt_2f (Finite False m') = ''12.34'' \<and> \<bar>m' - ?m\<bar> \<le> 1 / 100"
    unfolding line fmt_12_34 by blast
  have "(15 :: rat) < 131072" by simp
  with w1 w2 l1 l2 v1 v2 a' b' c' m line show ?thesis
    by blast
qed

text \<open>
  C7, as the claim states it, fails: the well-formed line
  \<open>Current reading: 1000000.03 A\<close> is parsed as 1000000, which is 0.03 away from the
  number in the line and prints as \<open>1000000.00\<close>. Single-precision values are 0.0625
  apart at that magnitude.
\<close>

theorem large_number_parsed_off:
  "well_formed \<lparr>num_sign = No_sign, num_int = ''1000000'', num_point = True, num_frac = ''03'',
      num_exp = None\<rparr> \<and>
   written_line \<lparr>num_sign = No_sign, num_int = ''1000000'', num_point = True, num_frac = ''03'',
      num_exp = None\<rparr> = ''Current reading: 1000000.03 A'' \<and>
   number_value \<lparr>num_sign = No_sign, num_int = ''1000000'', num_point = True, num_frac = ''03'',
      num_exp = None\<rparr> = 100000003 / 100 \<and>
   sscanf ''Current reading: 1000000.03 A'' ''Current reading: %f A'' =
     (1, [Finite False 1000000]) \<and>
   fmt_2f (Finite False 1000000) = ''1000000.00'' \<and>
   (1 / 100 :: rat) < \<bar>1000000 - 100000003 / 100\<bar>"
proof -
  let ?d = "\<lparr>num_sign = No_sign, num_int = ''1000000'', num_point = True, num_frac = ''03'',
      num_exp = None\<rparr>"
  have "well_formed ?d"
    by (simp add: well_formed_def isdigit_def)
  moreover have "written_line ?d = ''Current reading: 1000000.03 A''"
    by (simp add: written_line_def number_text_def exponent_text_def)
  moreover have "number_value ?d = 100000003 / 100"
    by (simp add: number_value_def exponent_value_def digits_value_def power_int_def power2_eq_square)
  moreover have "sscanf ''Current reading: 1000000.03 A'' ''Current reading: %f A'' =
      (1, [Finite False 1000000])"
    by (rule sscanf_Some [OF parse_1000000_03])
  moreover have "(1 / 100 :: rat) < \<bar>1000000 - 100000003 / 100\<bar>" by simp
  ultimately show ?thesis using fmt_1000000 by blast
qed

text \<open>
  C8. For every output \<open>r\<close> of the random source between 0 and \<open>RAND_MAX\<close>, the value
  computed for Sala lies between \<open>1.0f\<close> and \<open>1.5f\<close> and the value computed for Garage
  between \<open>2.6f\<close> and \<open>2.9f\<close>, compared as the program's single-precision numbers;
  the number the payload carries, printed with two decimals, is between 1.00 and 1.50 for
  Sala and between 2.60 and 2.90 for Garage. \<open>RAND_MAX\<close> is any positive \<open>int\<close>.
\<close>

theorem synthetic_values_in_range:
  assumes "0 < RAND_MAX" and "RAND_MAX \<le> 2147483647" and "0 \<le> r" and "r \<le> RAND_MAX"
  shows "float_le (float_lit 1) (sala_val RAND_MAX r) \<and>
         float_le (sala_val RAND_MAX r) (float_lit (3 / 2)) \<and>
         float_le (float_lit (13 / 5)) (garage_val RAND_MAX r) \<and>
         float_le (garage_val RAND_MAX r) (float_lit (29 / 10)) \<and>
         (\<exists>h. 100 \<le> h \<and> h \<le> 150 \<and>
            fmt_2f (sala_val RAND_MAX r) = dec_nat (h div 100) @ ''.'' @ [digit (h div 10), digit h]) \<and>
         (\<exists>h. 260 \<le> h \<and> h \<le> 290 \<and>
            fmt_2f (garage_val RAND_MAX r) = dec_nat (h div 100) @ ''.'' @ [digit (h div 10), digit h])"
proof -
  from sala_val_range [OF assms] obtain x
    where x: "sala_val RAND_MAX r = Finite False x" "1 \<le> x" "x \<le> 3 / 2" by blast
  from garage_val_range [OF assms] obtain y
    where y: "garage_val RAND_MAX r = Finite False y" "5452595 / 2097152 \<le> y"
      "y \<le> 12163481 / 4194304" by blast
  have hx: "100 \<le> hundredths x \<and> hundredths x \<le> 150"
    using x(2,3) by (intro hundredths_between) simp_all
  have hy: "260 \<le> hundredths y \<and> hundredths y \<le> 290"
    using y(2,3) by (intro hundredths_between) simp_all
  have s: "float_le (float_lit 1) (sala_val RAND_MAX r)" "float_le (sala_val RAND_MAX r) (float_lit (3 / 2))"
    using x by (simp_all add: float_lit_1 float_lit_3_2 signed_def)
  have g: "float_le (float_lit (13 / 5)) (garage_val RAND_MAX r)"
      "float_le (garage_val RAND_MAX r) (float_lit (29 / 10))"
    using y by (simp_all add: float_lit_2_6 float_lit_2_9 signed_def)
  have fx: "fmt_2f (sala_val RAND_MAX r) =
      dec_nat (hundredths x div 100) @ ''.'' @ [digit (hundredths x div 10), digit (hundredths x)]"
    by (simp add: x(1) fmt_2f_def)
  have fy: "fmt_2f (garage_val RAND_MAX r) =
      dec_nat (hundredths y div 100) @ ''.'' @ [digit (hundredths y div 10), digit (hundredths y)]"
    by (simp add: y(1) fmt_2f_def)
  from s g hx hy fx fy show ?thesis by blast
qed

theorem synthetic_values_in_range_witness:
  "(0::int) < 2147483647 \<and> (0::int) \<le> 1234567 \<and> (1234567::int) \<le> 2147483647 \<and>
   float_le (float_lit 1) (sala_val 2147483647 1234567) \<and>
   float_le (sala_val 2147483647 1234567) (float_lit (3 / 2)) \<and>
   float_le (float_lit (13 / 5)) (garage_val 2147483647 1234567) \<and>
   float_le (garage_val 2147483647 1234567) (float_lit (29 / 10))"
  using synthetic_values_in_range [of 2147483647 1234567] by simp

text \<open>
  C9. When the global client handle is NULL, \<open>publish_corriente\<close> returns, for every
  channel name and every value, without issuing a publish request and without changing
  anything but the log, which gains the one warning line.
\<close>

theorem publish_corriente_null_client:
  "g_client s = None \<Longrightarrow>
     publish_corriente fase I_rms e s = s\<lparr>logged := logged s @ [W_client_not_initialised]\<rparr> \<and>
     published (publish_corriente fase I_rms e s) = published s \<and>
     g_client (publish_corriente fase I_rms e s) = None \<and>
     session (publish_corriente fase I_rms e s) = session s"
  by (simp add: publish_corriente_None)

theorem publish_corriente_null_client_witness:
  "g_client initial_state = None \<and>
   publish_corriente ''Sala'' (Finite False (5 / 4)) \<lparr>now = 1717000000, msg_id = 7\<rparr> initial_state =
     \<lparr>g_client = None, session = Disconnected, published = [],
      logged = [W_client_not_initialised]\<rparr>"
  using publish_corriente_null_client
    [of initial_state "''Sala''" "Finite False (5 / 4)" "\<lparr>now = 1717000000, msg_id = 7\<rparr>"]
  by (simp add: initial_state_def)

text \<open>
  C10, as the code has it. The topic and the payload always fit their buffers with the
  terminating NUL (at most 63 and 127 characters), and the topic holds no NUL. The
  prefix and suffix take 15 characters, so the topic is exactly
  \<open>casa/<channel>/corriente\<close> for a channel name of at most 48 characters; a longer
  name is cut to the first 63 characters of that text, and the request is issued with
  the cut topic like any other.
\<close>

theorem topic_payload_fit_buffers:
  "length (topic fase) + 1 \<le> 64 \<and> length (payload ts I_rms) + 1 \<le> 128 \<and>
   CHR 0x00 \<notin> set (topic fase) \<and>
   (length (c_str fase) \<le> 48 \<longrightarrow> topic fase = ''casa/'' @ c_str fase @ ''/corriente'') \<and>
   (48 < length (c_str fase) \<longrightarrow>
      topic fase = take 63 (''casa/'' @ c_str fase @ ''/corriente'') \<and>
      length (topic fase) = 63 \<and>
      topic fase \<noteq> ''casa/'' @ c_str fase @ ''/corriente'') \<and>
   (g_client s = Some c \<longrightarrow>
      published (publish_corriente fase I_rms e s) =
        published s @
        [\<lparr>pub_client = c, pub_topic = topic fase, pub_data = payload (now e) I_rms,
          pub_len = 0, pub_qos = 1, pub_retain = 0\<rparr>])"
proof -
  have fit: "length (topic fase) + 1 \<le> 64" "length (payload ts I_rms) + 1 \<le> 128"
    using length_snprintf [of 64] length_snprintf [of 128]
    by (simp_all add: topic_def payload_def le_diff_conv)
  have "set (topic fase) \<subseteq> set (''casa/'' @ c_str fase @ ''/corriente'')"
    unfolding topic_def snprintf_def by (rule set_take_subset)
  then have nul: "CHR 0x00 \<notin> set (topic fase)"
    using c_str_no_nul [of fase] by auto
  have short: "topic fase = ''casa/'' @ c_str fase @ ''/corriente''"
    if "length (c_str fase) \<le> 48"
    using that by (simp add: topic_def snprintf_def)
  have long: "topic fase = take 63 (''casa/'' @ c_str fase @ ''/corriente'') \<and>
      length (topic fase) = 63 \<and> topic fase \<noteq> ''casa/'' @ c_str fase @ ''/corriente''"
    if "48 < length (c_str fase)"
  proof -
    have eq: "topic fase = take 63 (''casa/'' @ c_str fase @ ''/corriente'')"
      by (simp add: topic_def snprintf_def)
    have len: "length (topic fase) = 63"
      using that by (simp add: eq)
    have "length (''casa/'' @ c_str fase @ ''/corriente'') \<noteq> 63"
      using that by simp
    with len have "topic fase \<noteq> ''casa/'' @ c_str fase @ ''/corriente''"
      by metis
    with eq len show ?thesis by blast
  qed
  have req: "published (publish_corriente fase I_rms e s) =
        published s @
        [\<lparr>pub_client = c, pub_topic = topic fase, pub_data = payload (now e) I_rms,
          pub_len = 0, pub_qos = 1, pub_retain = 0\<rparr>]"
    if "g_client s = Some c"
    using that by (simp add: publish_corriente_Some)
  from fit nul short long req show ?thesis by blast
qed

theorem topic_payload_fit_buffers_witness:
  "length (c_str ''Cocina'') \<le> 48 \<and> topic ''Cocina'' = ''casa/Cocina/corriente'' \<and>
   48 < length (c_str ''aaaaaaaaaaaaaaaaaaaaaaaaaaaaaaaaaaaaaaaaaaaaaaaaaa'') \<and>
   length (topic ''aaaaaaaaaaaaaaaaaaaaaaaaaaaaaaaaaaaaaaaaaaaaaaaaaa'') = 63 \<and>
   g_client (mqtt_app_start (Some 1) initial_state) = Some 1 \<and>
   length (published (publish_corriente ''Cocina'' (Finite False 1) \<lparr>now = 0, msg_id = 1\<rparr>
     (mqtt_app_start (Some 1) initial_state))) = 1"
  using topic_payload_fit_buffers
      [of "''Cocina''" 0 "Finite False 1" "mqtt_app_start (Some 1) initial_state" 1
          "\<lparr>now = 0, msg_id = 1\<rparr>"]
    topic_payload_fit_buffers
      [of "''aaaaaaaaaaaaaaaaaaaaaaaaaaaaaaaaaaaaaaaaaaaaaaaaaa''" 0 "Finite False 1"
          initial_state 1 "\<lparr>now = 0, msg_id = 1\<rparr>"]
  by (simp add: c_str_def initial_state_def mqtt_app_start_def)

text \<open>
  C10, as the claim states it, fails at a channel name of exactly 49 characters: the full
  topic would need 64 characters and the buffer keeps 63.
\<close>

theorem topic_49_chars_truncated:
  "length ''aaaaaaaaaaaaaaaaaaaaaaaaaaaaaaaaaaaaaaaaaaaaaaaaa'' = 49 \<and>
   topic ''aaaaaaaaaaaaaaaaaaaaaaaaaaaaaaaaaaaaaaaaaaaaaaaaa'' =
     ''casa/aaaaaaaaaaaaaaaaaaaaaaaaaaaaaaaaaaaaaaaaaaaaaaaaa/corrient'' \<and>
   topic ''aaaaaaaaaaaaaaaaaaaaaaaaaaaaaaaaaaaaaaaaaaaaaaaaa'' \<noteq>
     ''casa/'' @ ''aaaaaaaaaaaaaaaaaaaaaaaaaaaaaaaaaaaaaaaaaaaaaaaaa'' @ ''/corriente''"
  by (simp add: topic_def snprintf_def c_str_def)

end
